theory Spec2Isabelle
  imports Main "HOL-Library.AList"
begin

section \<open>Common data\<close>

text \<open>
  The unit statuses of \<^verbatim>\<open>ops.model\<close> (subclasses of \<^verbatim>\<open>StatusBase\<close>); an
  \<^verbatim>\<open>isinstance\<close> test of the source is a test on the constructor.
\<close>

datatype status =
    ActiveStatus string
  | BlockedStatus string
  | MaintenanceStatus string
  | WaitingStatus string
  | ErrorStatus string
  | UnknownStatus

fun is_active :: "status \<Rightarrow> bool" where
  "is_active (ActiveStatus _) = True"
| "is_active _ = False"

text \<open>Exceptions that the modelled code raises, catches or lets through.\<close>

datatype exn =
    NotReadyError
  | PyMongoError
  | IndexError
  | AttributeError
  | PBMBusyError
  | ResyncError
  | ExecError string
  | CalledProcessError string
  | SecretNotAddedError
  | RelationDataAccessError
  | ModelError
  | OtherError

text \<open>
  Calls to the external collaborators (cluster driver, workload container, event
  substrate), recorded in the order in which a handler issues them.
\<close>

datatype call =
    ConnectMongodbExporter
  | ConnectPbmAgent
  | GenerateSecrets
  | GetReplsetMembers
  | RemoveReplsetMember string
  | IsReady string
  | AddReplsetMember string
  | GetUsers
  | UpdateAppRelationData
  | Defer
  | Fail string
  | GetRelation string
  | BuildUnitStatus
  | GetBackupService
  | RunPbmCommand "string list"
  | StartBackupService
  | RestartBackupService
  | Sleep nat

fun is_add :: "call \<Rightarrow> bool" where
  "is_add (AddReplsetMember _) = True"
| "is_add _ = False"

fun is_remove :: "call \<Rightarrow> bool" where
  "is_remove (RemoveReplsetMember _) = True"
| "is_remove _ = False"

text \<open>What a handler changes: the calls issued so far, the unit status, and the
  \<^verbatim>\<open>unit_departed\<close> key of the unit's peer data.\<close>

record charm =
  calls :: "call list"
  unit_status :: status
  unit_departed :: "string option"

definition log :: "call \<Rightarrow> charm \<Rightarrow> charm" where
  "log c s = s\<lparr>calls := calls s @ [c]\<rparr>"

section \<open>Replica-set reconciliation (\<^verbatim>\<open>charm.py\<close>)\<close>

text \<open>
  The events that \<^verbatim>\<open>_relation_changes_handler\<close> observes. A
  \<^verbatim>\<open>RelationDepartedEvent\<close> carries \<^verbatim>\<open>departing_unit\<close> and \<^verbatim>\<open>unit\<close>
  (both optional in ops); units are represented by their names.
\<close>

datatype event =
    RelationDepartedEvent "string option" "string option"
  | RelationJoinedEvent
  | RelationChangedEvent
  | LeaderElectedEvent
  | UpdateStatusEvent

text \<open>
  What the handler reads from its surroundings during one run: the application and unit
  names, the peer relation's units (\<open>None\<close> when the relation does not exist), leadership,
  the initialisation flag, and the answers of the cluster driver. \<open>set_iter\<close> is the
  order in which Python iterates over a set.
\<close>

record env =
  app_name :: string
  self_unit :: string
  peers :: "string list option"
  is_leader :: bool
  db_initialised :: bool
  get_replset_members :: "exn + string set"
  is_ready :: "string \<Rightarrow> bool"
  add_replset_member :: "string \<Rightarrow> exn option"
  remove_replset_member :: "string \<Rightarrow> exn option"
  get_users :: "exn option"
  set_iter :: "string set \<Rightarrow> string list"

text \<open>\<^verbatim>\<open>str.split(sep)\<close> for a one-character separator.\<close>

fun split_sep :: "char \<Rightarrow> string \<Rightarrow> string list" where
  "split_sep c [] = [[]]"
| "split_sep c (x # xs) =
     (if x = c then [] # split_sep c xs
      else (case split_sep c xs of
              [] \<Rightarrow> [[x]]
            | w # ws \<Rightarrow> (x # w) # ws))"

text \<open>\<^verbatim>\<open>get_hostname_for_unit\<close>: \<^verbatim>\<open>unit.name.split("/")[1]\<close> raises
  \<^verbatim>\<open>IndexError\<close> when the name has no slash.\<close>

definition get_hostname_for_unit :: "env \<Rightarrow> string \<Rightarrow> exn + string" where
  "get_hostname_for_unit e u =
     (case split_sep (CHR ''/'') u of
        _ # unit_id # _ \<Rightarrow>
          Inr (app_name e @ ''-'' @ unit_id @ ''.'' @ app_name e @ ''-endpoints'')
      | _ \<Rightarrow> Inl IndexError)"

fun map_exn :: "('a \<Rightarrow> exn + 'b) \<Rightarrow> 'a list \<Rightarrow> exn + 'b list" where
  "map_exn f [] = Inr []"
| "map_exn f (x # xs) =
     (case f x of
        Inl err \<Rightarrow> Inl err
      | Inr y \<Rightarrow> (case map_exn f xs of Inl err \<Rightarrow> Inl err | Inr ys \<Rightarrow> Inr (y # ys)))"

text \<open>\<^verbatim>\<open>_unit_hosts\<close>: the own hostname, then the hostnames of the peer units.\<close>

definition unit_hosts :: "env \<Rightarrow> exn + string list" where
  "unit_hosts e =
     (case get_hostname_for_unit e (self_unit e) of
        Inl err \<Rightarrow> Inl err
      | Inr h \<Rightarrow>
          (case peers e of
             None \<Rightarrow> Inr [h]
           | Some us \<Rightarrow>
               (case map_exn (get_hostname_for_unit e) us of
                  Inl err \<Rightarrow> Inl err
                | Inr hs \<Rightarrow> Inr (h # hs))))"

text \<open>\<^verbatim>\<open>mongodb_config.hosts\<close>, which is \<^verbatim>\<open>set(hosts)\<close> of \<^verbatim>\<open>_unit_hosts\<close>.\<close>

definition mongodb_hosts :: "env \<Rightarrow> exn + string set" where
  "mongodb_hosts e = (case unit_hosts e of Inl err \<Rightarrow> Inl err | Inr hs \<Rightarrow> Inr (set hs))"

text \<open>\<^verbatim>\<open>_remove_units_from_replica_set\<close>: one driver call per member; an exception
  of the driver leaves the loop.\<close>

fun remove_loop :: "env \<Rightarrow> string list \<Rightarrow> charm \<Rightarrow> (exn + unit) \<times> charm" where
  "remove_loop e [] s = (Inr (), s)"
| "remove_loop e (member # ms) s =
     (let s1 = log (RemoveReplsetMember member) s in
      case remove_replset_member e member of
        Some err \<Rightarrow> (Inl err, s1)
      | None \<Rightarrow> remove_loop e ms s1)"

definition remove_units_from_replica_set ::
  "env \<Rightarrow> string set \<Rightarrow> charm \<Rightarrow> (exn + unit) \<times> charm" where
  "remove_units_from_replica_set e units_to_remove s =
     remove_loop e (set_iter e units_to_remove) s"

text \<open>\<^verbatim>\<open>_add_units_from_replica_set\<close>: a direct connection to the member asks
  \<^verbatim>\<open>is_ready\<close>; a member that is not ready defers the event and returns.\<close>

fun add_loop :: "env \<Rightarrow> string list \<Rightarrow> charm \<Rightarrow> (exn + unit) \<times> charm" where
  "add_loop e [] s = (Inr (), s)"
| "add_loop e (member # ms) s =
     (let s1 = log (IsReady member) s in
      if \<not> is_ready e member then (Inr (), log Defer s1)
      else
        (let s2 = log (AddReplsetMember member) s1 in
         case add_replset_member e member of
           Some err \<Rightarrow> (Inl err, s2)
         | None \<Rightarrow> add_loop e ms s2))"

definition add_units_from_replica_set ::
  "env \<Rightarrow> string set \<Rightarrow> charm \<Rightarrow> (exn + unit) \<times> charm" where
  "add_units_from_replica_set e units_to_add s =
     add_loop e (set_iter e units_to_add) s"

definition set_leader_unit_active_if_needed :: "charm \<Rightarrow> charm" where
  "set_leader_unit_active_if_needed s =
     (if unit_status s = WaitingStatus ''waiting to reconfigure replica set''
      then s\<lparr>unit_status := ActiveStatus ''''\<rparr>
      else s)"

text \<open>The hosts to add from: for a departed event with a unit, that unit's hostname is
  taken out of \<^verbatim>\<open>mongodb_hosts\<close>.\<close>

definition hosts_without_departing :: "env \<Rightarrow> event \<Rightarrow> string set \<Rightarrow> exn + string set" where
  "hosts_without_departing e ev hosts =
     (case ev of
        RelationDepartedEvent _ (Some u) \<Rightarrow>
          (case get_hostname_for_unit e u of
             Inl err \<Rightarrow> Inl err
           | Inr h \<Rightarrow> Inr (hosts - {h}))
      | _ \<Rightarrow> Inr hosts)"

text \<open>The body of the \<^verbatim>\<open>try\<close> block of \<^verbatim>\<open>_relation_changes_handler\<close>.\<close>

definition reconfigure :: "env \<Rightarrow> event \<Rightarrow> charm \<Rightarrow> (exn + unit) \<times> charm" where
  "reconfigure e ev s =
     (let s1 = log GetReplsetMembers s in
      case get_replset_members e of
        Inl err \<Rightarrow> (Inl err, s1)
      | Inr replset_members \<Rightarrow>
          (case mongodb_hosts e of
             Inl err \<Rightarrow> (Inl err, s1)
           | Inr hosts \<Rightarrow>
               if replset_members = hosts
               then (Inr (), set_leader_unit_active_if_needed s1)
               else
                 (case remove_units_from_replica_set e (replset_members - hosts) s1 of
                    (Inl err, s2) \<Rightarrow> (Inl err, s2)
                  | (Inr _, s2) \<Rightarrow>
                      (case hosts_without_departing e ev hosts of
                         Inl err \<Rightarrow> (Inl err, s2)
                       | Inr hosts' \<Rightarrow>
                           (case add_units_from_replica_set e (hosts' - replset_members) s2 of
                              (Inl err, s3) \<Rightarrow> (Inl err, s3)
                            | (Inr _, s3) \<Rightarrow>
                                (let s4 = log GetUsers s3 in
                                 case get_users e of
                                   Some err \<Rightarrow> (Inl err, s4)
                                 | None \<Rightarrow> (Inr (), log UpdateAppRelationData s4)))))))"

text \<open>The departed check at the top of the handler: \<^verbatim>\<open>setdefault\<close> on the unit's
  peer data, which is a throw-away dictionary when the peer relation is absent.\<close>

definition note_departure :: "env \<Rightarrow> event \<Rightarrow> charm \<Rightarrow> exn + charm" where
  "note_departure e ev s =
     (case ev of
        RelationDepartedEvent None _ \<Rightarrow> Inl AttributeError
      | RelationDepartedEvent (Some d) _ \<Rightarrow>
          if d = self_unit e \<and> peers e \<noteq> None \<and> unit_departed s = None
          then Inr (s\<lparr>unit_departed := Some ''True''\<rparr>)
          else Inr s
      | _ \<Rightarrow> Inr s)"

text \<open>The \<^verbatim>\<open>except\<close> clauses of the handler: \<^verbatim>\<open>NotReadyError\<close> and
  \<^verbatim>\<open>PyMongoError\<close> from the \<^verbatim>\<open>try\<close> block defer the event, any other
  exception leaves the handler.\<close>

definition except_driver_errors :: "(exn + unit) \<times> charm \<Rightarrow> exn option \<times> charm" where
  "except_driver_errors rs =
     (case rs of
        (Inl NotReadyError, s) \<Rightarrow> (None, log Defer s)
      | (Inl PyMongoError, s) \<Rightarrow> (None, log Defer s)
      | (Inl err, s) \<Rightarrow> (Some err, s)
      | (Inr _, s) \<Rightarrow> (None, s))"

text \<open>
  \<^verbatim>\<open>_relation_changes_handler\<close>. The result is the exception that leaves the handler,
  if any.
\<close>

definition relation_changes_handler :: "env \<Rightarrow> event \<Rightarrow> charm \<Rightarrow> exn option \<times> charm" where
  "relation_changes_handler e ev s =
     (let s1 = log ConnectPbmAgent (log ConnectMongodbExporter s) in
      case note_departure e ev s1 of
        Inl err \<Rightarrow> (Some err, s1)
      | Inr s2 \<Rightarrow>
          if \<not> is_leader e then (None, s2)
          else
            (let s3 = log GenerateSecrets s2 in
             if \<not> db_initialised e then (None, s3)
             else
               (case mongodb_hosts e of
                  Inl err \<Rightarrow> (Some err, s3)
                | Inr _ \<Rightarrow> except_driver_errors (reconfigure e ev s3))))"

text \<open>A three-unit deployment used in the examples: this unit is \<^verbatim>\<open>mongodb/0\<close>
  (host A), the cluster still has \<^verbatim>\<open>mongodb/1\<close> (host B), and the peer relation
  lists \<^verbatim>\<open>mongodb/2\<close> (host C).\<close>

definition host_A :: string where "host_A = ''mongodb-0.mongodb-endpoints''"
definition host_B :: string where "host_B = ''mongodb-1.mongodb-endpoints''"
definition host_C :: string where "host_C = ''mongodb-2.mongodb-endpoints''"
definition host_D :: string where "host_D = ''mongodb-3.mongodb-endpoints''"

definition demo_iter :: "string set \<Rightarrow> string list" where
  "demo_iter S = filter (\<lambda>h. h \<in> S) [host_A, host_B, host_C, host_D]"

definition demo_env :: env where
  "demo_env =
     \<lparr> app_name = ''mongodb'', self_unit = ''mongodb/0'', peers = Some [''mongodb/2''],
       is_leader = True, db_initialised = True,
       get_replset_members = Inr {host_A, host_B},
       is_ready = (\<lambda>_. True),
       add_replset_member = (\<lambda>_. None),
       remove_replset_member = (\<lambda>_. None),
       get_users = None,
       set_iter = demo_iter \<rparr>"

text \<open>The same deployment when \<^verbatim>\<open>mongodb/1\<close> is still listed by the peer
  relation but already gone from the replica set, and when the replica set already has the
  desired members.\<close>

definition demo_departing_env :: env where
  "demo_departing_env =
     demo_env\<lparr> peers := Some [''mongodb/1''], get_replset_members := Inr {host_A} \<rparr>"

definition demo_converged_env :: env where
  "demo_converged_env = demo_env\<lparr> get_replset_members := Inr {host_A, host_C} \<rparr>"

definition demo_unready_env :: env where
  "demo_unready_env = demo_env\<lparr> is_ready := (\<lambda>h. h = host_B) \<rparr>"

definition fresh :: charm where
  "fresh = \<lparr> calls = [], unit_status = ActiveStatus '''', unit_departed = None \<rparr>"

text \<open>Specification functions for the traces of one reconciliation pass: the members a
  removal loop reaches, the calls of an addition loop, and the calls that are neither an
  addition nor a removal.\<close>

fun removed :: "env \<Rightarrow> string list \<Rightarrow> string list" where
  "removed e [] = []"
| "removed e (m # ms) = m # (if remove_replset_member e m = None then removed e ms else [])"

fun add_calls :: "env \<Rightarrow> string list \<Rightarrow> call list" where
  "add_calls e [] = []"
| "add_calls e (m # ms) =
     IsReady m #
       (if \<not> is_ready e m then [Defer]
        else AddReplsetMember m # (if add_replset_member e m = None then add_calls e ms else []))"

text \<open>The calls issued between two states of a handler.\<close>

definition issued :: "charm \<Rightarrow> charm \<Rightarrow> call list" where
  "issued s s' = drop (length (calls s)) (calls s')"

definition neutral :: "call list \<Rightarrow> bool" where
  "neutral tr = (\<forall>c\<in>set tr. \<not> is_add c \<and> \<not> is_remove c)"

section \<open>Backup status and backup actions (\<^verbatim>\<open>mongodb_backups.py\<close>)\<close>

definition S3_RELATION :: string where "S3_RELATION = ''s3-credentials''"

definition PBM_STATUS_CMD :: "string list" where
  "PBM_STATUS_CMD = [''status'', ''-o'', ''json'']"

text \<open>
  The helpers \<^verbatim>\<open>process_pbm_status\<close>, \<^verbatim>\<open>process_pbm_error\<close>,
  \<^verbatim>\<open>current_pbm_op\<close> and \<^verbatim>\<open>build_unit_status\<close> are imported from
  \<^verbatim>\<open>charms.mongodb.v0.helpers\<close>; they are parameters here, together with the
  presence of the \<^verbatim>\<open>s3-credentials\<close> relation.
\<close>

record pbm =
  s3_relation :: bool
  process_pbm_status :: "string \<Rightarrow> exn + status"
  process_pbm_error :: "string \<Rightarrow> string"
  current_pbm_op :: "string \<Rightarrow> string"
  build_unit_status :: status

text \<open>What one status poll meets: whether \<^verbatim>\<open>get_backup_service\<close> finds the service
  (it raises \<^verbatim>\<open>ModelError\<close> otherwise) and what the status command returns or
  raises.\<close>

record pbm_poll =
  service_found :: bool
  status_output :: "exn + string"

text \<open>The \<^verbatim>\<open>except\<close> clauses of \<^verbatim>\<open>_get_pbm_status\<close>.\<close>

fun pbm_status_error :: "pbm \<Rightarrow> exn \<Rightarrow> status" where
  "pbm_status_error b (ExecError stdout) = BlockedStatus (process_pbm_error b stdout)"
| "pbm_status_error b (CalledProcessError output) = BlockedStatus (process_pbm_error b output)"
| "pbm_status_error b _ = BlockedStatus ''PBM error''"

definition get_pbm_status :: "pbm \<Rightarrow> pbm_poll \<Rightarrow> charm \<Rightarrow> status \<times> charm" where
  "get_pbm_status b p s =
     (let s1 = log GetBackupService s in
      if \<not> service_found p then (WaitingStatus ''waiting for pbm to start'', s1)
      else
        (let s2 = log (RunPbmCommand PBM_STATUS_CMD) s1 in
         case status_output p of
           Inl err \<Rightarrow> (pbm_status_error b err, s2)
         | Inr pbm_status \<Rightarrow>
             (case process_pbm_status b pbm_status of
                Inl err \<Rightarrow> (pbm_status_error b err, s2)
              | Inr st \<Rightarrow> (st, s2))))"




section \<open>Status projection (\<^verbatim>\<open>_on_update_status\<close> in \<^verbatim>\<open>charm.py\<close>)\<close>

text \<open>
  The handler returns early while the database is not initialised or not ready on
  localhost; a leader first runs a reconciliation pass. Then the database status and the
  backup status are both obtained, and the \<^verbatim>\<open>or\<close> chain chooses between them:
  the relation is looked up only when the database status is active.
\<close>

definition project_status :: "pbm \<Rightarrow> pbm_poll \<Rightarrow> charm \<Rightarrow> charm" where
  "project_status b p s =
     (let mongodb_status = build_unit_status b;
          s1 = log BuildUnitStatus s
      in case get_pbm_status b p s1 of
           (pbm_status, s2) \<Rightarrow>
             if \<not> is_active mongodb_status
             then s2\<lparr>unit_status := mongodb_status\<rparr>
             else
               (let s3 = log (GetRelation S3_RELATION) s2 in
                if \<not> s3_relation b \<or> is_active pbm_status
                then s3\<lparr>unit_status := mongodb_status\<rparr>
                else s3\<lparr>unit_status := pbm_status\<rparr>))"

definition on_update_status :: "env \<Rightarrow> pbm \<Rightarrow> pbm_poll \<Rightarrow> charm \<Rightarrow> exn option \<times> charm" where
  "on_update_status e b p s =
     (if \<not> db_initialised e then (None, s)
      else
        (case mongodb_hosts e of
           Inl err \<Rightarrow> (Some err, s)
         | Inr _ \<Rightarrow>
             (let s1 = log (IsReady ''localhost'') s in
              if \<not> is_ready e ''localhost''
              then (None, s1\<lparr>unit_status := WaitingStatus ''Waiting for MongoDB to start''\<rparr>)
              else
                (case (if is_leader e then relation_changes_handler e UpdateStatusEvent s1
                       else (None, s1)) of
                   (Some err, s2) \<Rightarrow> (Some err, s2)
                 | (None, s2) \<Rightarrow> (None, project_status b p s2)))))"

text \<open>Example surroundings for the status handlers: a non-leader unit whose database
  is initialised and ready, no \<^verbatim>\<open>s3-credentials\<close> relation, and a backup tool that
  answers the status command.\<close>

definition demo_pbm :: pbm where
  "demo_pbm =
     \<lparr> s3_relation = False,
       process_pbm_status = (\<lambda>out. Inr (ActiveStatus [])),
       process_pbm_error = (\<lambda>out. out),
       current_pbm_op = (\<lambda>out. out),
       build_unit_status = ActiveStatus [] \<rparr>"

definition demo_poll :: pbm_poll where
  "demo_poll = \<lparr> service_found = True, status_output = Inr ''{}'' \<rparr>"

definition demo_follower_env :: env where
  "demo_follower_env = demo_env\<lparr> is_leader := False \<rparr>"

definition demo_pbm_with :: "status \<Rightarrow> pbm" where
  "demo_pbm_with database_status =
     demo_pbm\<lparr> s3_relation := True, build_unit_status := database_status \<rparr>"

text \<open>How an action handler ends, read off the calls it issued: the first
  \<^verbatim>\<open>event.fail\<close> or \<^verbatim>\<open>event.defer\<close>, or neither. \<open>poll_calls\<close> are the calls
  of one \<^verbatim>\<open>_get_pbm_status\<close>.\<close>

datatype outcome = Failed string | Deferred | Proceeded

fun outcome_of :: "call list \<Rightarrow> outcome" where
  "outcome_of [] = Proceeded"
| "outcome_of (Fail message # _) = Failed message"
| "outcome_of (Defer # _) = Deferred"
| "outcome_of (_ # cs) = outcome_of cs"

definition poll_calls :: "pbm_poll \<Rightarrow> call list" where
  "poll_calls p =
     GetBackupService # (if service_found p then [RunPbmCommand PBM_STATUS_CMD] else [])"

definition demo_pbm_polling :: "status \<Rightarrow> pbm" where
  "demo_pbm_polling polled =
     demo_pbm\<lparr> s3_relation := True, process_pbm_status := (\<lambda>out. Inr polled) \<rparr>"

section \<open>Resynchronisation of the backup configuration (\<^verbatim>\<open>mongodb_backups.py\<close>)\<close>

text \<open>
  \<^verbatim>\<open>tenacity\<close>'s retry loop with \<^verbatim>\<open>stop_after_attempt(stop)\<close>,
  \<^verbatim>\<open>wait_fixed(wait)\<close> and \<^verbatim>\<open>reraise=True\<close>: attempts are numbered from 1; an
  attempt that raises an exception the \<open>retry\<close> predicate accepts is repeated after the
  wait, until the attempt number reaches \<open>stop\<close>; then the last exception is raised.
\<close>

function retrying ::
  "nat \<Rightarrow> nat \<Rightarrow> (exn \<Rightarrow> bool) \<Rightarrow> (nat \<Rightarrow> charm \<Rightarrow> (exn + 'a) \<times> charm)
     \<Rightarrow> nat \<Rightarrow> charm \<Rightarrow> (exn + 'a) \<times> charm" where
  "retrying stop wait retry body attempt s =
     (case body attempt s of
        (Inr v, s1) \<Rightarrow> (Inr v, s1)
      | (Inl err, s1) \<Rightarrow>
          if \<not> retry err \<or> stop \<le> attempt then (Inl err, s1)
          else retrying stop wait retry body (Suc attempt) (log (Sleep wait) s1))"
  by pat_completeness auto
termination
  by (relation "measure (\<lambda>(stop, wait, retry, body, attempt, s). stop - attempt)") auto

text \<open>What the resynchronisation meets: the answer to the n-th status poll of the
  pre-check loop, whether the resync command raises, and the answer to the n-th status
  command of \<^verbatim>\<open>_wait_pbm_status\<close>.\<close>

record resync =
  polls :: "nat \<Rightarrow> pbm_poll"
  force_resync :: "exn option"
  wait_polls :: "nat \<Rightarrow> exn + string"

text \<open>One attempt of the pre-check loop of \<^verbatim>\<open>_resync_config_options\<close>.\<close>

definition precheck_attempt :: "pbm \<Rightarrow> pbm_poll \<Rightarrow> charm \<Rightarrow> (exn + unit) \<times> charm" where
  "precheck_attempt b p s =
     (case get_pbm_status b p s of
        (pbm_status, s1) \<Rightarrow>
          (case pbm_status of
             MaintenanceStatus _ \<Rightarrow> (Inl PBMBusyError, s1)
           | WaitingStatus _ \<Rightarrow> (Inl PBMBusyError, log RestartBackupService s1)
           | _ \<Rightarrow> (Inr (), s1)))"

text \<open>The test \<^verbatim>\<open>"Resync" in ...\<close> on strings.\<close>

fun starts_with :: "string \<Rightarrow> string \<Rightarrow> bool" where
  "starts_with [] _ = True"
| "starts_with (x # xs) [] = False"
| "starts_with (x # xs) (y # ys) = (x = y \<and> starts_with xs ys)"

fun str_in :: "string \<Rightarrow> string \<Rightarrow> bool" where
  "str_in sub [] = (sub = [])"
| "str_in sub (y # ys) = (starts_with sub (y # ys) \<or> str_in sub ys)"

text \<open>One attempt of the inner loop of \<^verbatim>\<open>_wait_pbm_status\<close>: a running resync
  raises \<^verbatim>\<open>ResyncError\<close>, an \<^verbatim>\<open>ExecError\<close> of the status command is turned into
  a blocked status.\<close>

definition wait_attempt :: "pbm \<Rightarrow> exn + string \<Rightarrow> charm \<Rightarrow> (exn + unit) \<times> charm" where
  "wait_attempt b reply s =
     (let s1 = log (RunPbmCommand PBM_STATUS_CMD) s in
      case reply of
        Inr pbm_status \<Rightarrow>
          if str_in ''Resync'' (current_pbm_op b pbm_status)
          then (Inl ResyncError,
                s1\<lparr>unit_status := WaitingStatus ''waiting to sync s3 configurations.''\<rparr>)
          else (Inr (), s1)
      | Inl (ExecError stdout) \<Rightarrow>
          (Inr (), s1\<lparr>unit_status := BlockedStatus (process_pbm_error b stdout)\<rparr>)
      | Inl err \<Rightarrow> (Inl err, s1))"

text \<open>\<^verbatim>\<open>_wait_pbm_status\<close>: three attempts five seconds apart, the whole retried up
  to twenty times on \<^verbatim>\<open>ResyncError\<close>. An outer attempt is repeated only after its three
  inner attempts have failed, so the j-th outer attempt starts at status command
  \<open>3 * (j - 1) + 1\<close>.\<close>

definition wait_pbm_status :: "pbm \<Rightarrow> resync \<Rightarrow> charm \<Rightarrow> (exn + unit) \<times> charm" where
  "wait_pbm_status b r s =
     retrying 20 0 (\<lambda>err. err = ResyncError)
       (\<lambda>j. retrying 3 5 (\<lambda>err. True)
               (\<lambda>k. wait_attempt b (wait_polls r (3 * (j - 1) + k))) 1)
       1 s"

text \<open>\<^verbatim>\<open>_resync_config_options\<close>.\<close>

definition resync_config_options :: "pbm \<Rightarrow> resync \<Rightarrow> charm \<Rightarrow> (exn + unit) \<times> charm" where
  "resync_config_options b r s =
     (let s1 = log StartBackupService s in
      case retrying 20 5 (\<lambda>err. True) (\<lambda>n. precheck_attempt b (polls r n)) 1 s1 of
        (Inl err, s2) \<Rightarrow> (Inl err, s2)
      | (Inr _, s2) \<Rightarrow>
          (let s3 = log (RunPbmCommand [''config'', ''--force-resync'']) s2 in
           case force_resync r of
             Some err \<Rightarrow> (Inl err, s3)
           | None \<Rightarrow> wait_pbm_status b r (log (Sleep 2) s3)))"

text \<open>The statuses on which the pre-check loop raises \<^verbatim>\<open>PBMBusyError\<close>.\<close>

fun is_maintenance :: "status \<Rightarrow> bool" where
  "is_maintenance (MaintenanceStatus _) = True"
| "is_maintenance _ = False"

fun is_waiting :: "status \<Rightarrow> bool" where
  "is_waiting (WaitingStatus _) = True"
| "is_waiting _ = False"

text \<open>A backup tool that reports a running operation at every poll, and one that
  is idle.\<close>

definition demo_resync :: resync where
  "demo_resync =
     \<lparr> polls = (\<lambda>n. demo_poll), force_resync = None, wait_polls = (\<lambda>n. Inr ''{}'') \<rparr>"

text \<open>The status that the n-th poll of the pre-check loop yields, and the calls of a
  pre-check loop that finds the tool busy from attempt \<open>a\<close> on, for \<open>k\<close> attempts.\<close>

definition polled :: "pbm \<Rightarrow> resync \<Rightarrow> nat \<Rightarrow> status" where
  "polled b r n = fst (get_pbm_status b (polls r n) fresh)"

fun busy_calls :: "pbm \<Rightarrow> resync \<Rightarrow> nat \<Rightarrow> nat \<Rightarrow> call list" where
  "busy_calls b r a 0 = []"
| "busy_calls b r a (Suc k) =
     poll_calls (polls r a)
       @ (if is_waiting (polled b r a) then [RestartBackupService] else [])
       @ (if k = 0 then [] else Sleep 5 # busy_calls b r (Suc a) k)"

section \<open>The remapping pattern (\<^verbatim>\<open>REMAPPING_PATTERN\<close> in \<^verbatim>\<open>mongodb_backups.py\<close>)\<close>

text \<open>
  The fragment of Python's regular expressions that the pattern uses: literal characters,
  the dot (any character but a newline), character classes and negated classes, a greedy
  \<^verbatim>\<open>+\<close> on a one-character item, sequencing, numbered capture groups, the greedy
  option \<^verbatim>\<open>?\<close> and the anchors \<^verbatim>\<open>\A\<close> and \<^verbatim>\<open>\Z\<close>.
\<close>

datatype atom = Lit char | AnyChar | OneOf "char list" | NotIn "char list"

datatype re =
    Eps
  | Atom atom
  | Plus atom
  | Seq re re
  | Group nat re
  | Opt re
  | StartA
  | EndZ

fun atom_ok :: "atom \<Rightarrow> char \<Rightarrow> bool" where
  "atom_ok (Lit c) x = (x = c)"
| "atom_ok AnyChar x = (x \<noteq> CHR 0x0A)"
| "atom_ok (OneOf cs) x = (x \<in> set cs)"
| "atom_ok (NotIn cs) x = (x \<notin> set cs)"

text \<open>
  A matcher state is the position in the subject, the rest of the subject and the groups
  captured so far. \<open>matches\<close> lists the states after a match in the order in which the
  backtracking matcher tries them: a greedy repetition tries the longest run first, an
  option tries its body before skipping it.
\<close>

type_synonym mstate = "nat \<times> string \<times> (nat \<rightharpoonup> string)"

fun matches :: "re \<Rightarrow> mstate \<Rightarrow> mstate list" where
  "matches Eps st = [st]"
| "matches (Atom a) (pos, rest, groups) =
     (case rest of
        [] \<Rightarrow> []
      | x # xs \<Rightarrow> if atom_ok a x then [(Suc pos, xs, groups)] else [])"
| "matches (Plus a) (pos, rest, groups) =
     map (\<lambda>k. (pos + k, drop k rest, groups))
       (rev [1..<Suc (length (takeWhile (atom_ok a) rest))])"
| "matches (Seq r1 r2) st = concat (map (matches r2) (matches r1 st))"
| "matches (Group i r) (pos, rest, groups) =
     map (\<lambda>(pos', rest', groups'). (pos', rest', groups'(i \<mapsto> take (pos' - pos) rest)))
       (matches r (pos, rest, groups))"
| "matches (Opt r) st = matches r st @ [st]"
| "matches StartA (pos, rest, groups) = (if pos = 0 then [(pos, rest, groups)] else [])"
| "matches EndZ (pos, rest, groups) = (if rest = [] then [(pos, rest, groups)] else [])"

text \<open>\<^verbatim>\<open>re.match(pattern, text)\<close>: the first way to match from the start of the text;
  the result is the capture groups.\<close>

definition re_match :: "re \<Rightarrow> string \<Rightarrow> (nat \<rightharpoonup> string) option" where
  "re_match pattern text =
     (case matches pattern (0, text, Map.empty) of
        [] \<Rightarrow> None
      | (pos, rest, groups) # _ \<Rightarrow> Some groups)"

fun seq_of :: "re list \<Rightarrow> re" where
  "seq_of [] = Eps"
| "seq_of (r # rs) = Seq r (seq_of rs)"

text \<open>A stretch of pattern text without classes, groups or operators: a dot is the
  wildcard, every other character stands for itself.\<close>

definition plain :: "string \<Rightarrow> re" where
  "plain s = seq_of (map (\<lambda>c. if c = CHR ''.'' then Atom AnyChar else Atom (Lit c)) s)"

text \<open>The characters that \<^verbatim>\<open>\s\<close> matches in a \<^verbatim>\<open>str\<close> pattern, among the
  code points below 256 (a character stands for its code point): the six of ASCII, the
  four separators \<^verbatim>\<open>0x1C\<close> to \<^verbatim>\<open>0x1F\<close>, next line \<^verbatim>\<open>0x85\<close> and the
  no-break space \<^verbatim>\<open>0xA0\<close>.\<close>

definition whitespace :: "char list" where
  "whitespace = [CHR 0x09, CHR 0x0A, CHR 0x0B, CHR 0x0C, CHR 0x0D,
                 CHR 0x1C, CHR 0x1D, CHR 0x1E, CHR 0x1F, CHR 0x20,
                 CHR 0x85, CHR 0xA0]"

text \<open>
  \<^verbatim>\<open>REMAPPING_PATTERN\<close>: \<^verbatim>\<open>\A\<close>, the diagnostic text up to \<^verbatim>\<open>are: \<close>, the
  group \<^verbatim>\<open>([^,\s]+)\<close>, the optional group
  \<^verbatim>\<open>([.] Backup has no data for the config server or sole replicaset)?\<close> and
  \<^verbatim>\<open>\Z\<close>.
\<close>

definition REMAPPING_PATTERN :: re where
  "REMAPPING_PATTERN =
     seq_of
       [StartA,
        plain ''Backup doesn't match current cluster topology - it has different replica set names. Extra shards in the backup will cause this, for a simple example. The extra/unknown replica set names found in the backup are: '',
        Group 1 (Plus (NotIn (CHR '','' # whitespace))),
        Opt (Group 2 (Seq (Atom (OneOf ''.''))
               (plain '' Backup has no data for the config server or sole replicaset''))),
        EndZ]"

text \<open>The first capture group of a match of the pattern, if the text matches.\<close>

definition remapped_name :: "string \<Rightarrow> string option" where
  "remapped_name text =
     (case re_match REMAPPING_PATTERN text of
        None \<Rightarrow> None
      | Some groups \<Rightarrow> groups 1)"

text \<open>The diagnostic text of the backup tool for an unknown replica set \<^verbatim>\<open>rs1\<close>,
  up to the name.\<close>

definition topology_error :: string where
  "topology_error = ''Backup doesn't match current cluster topology - it has different replica set names. Extra shards in the backup will cause this, for a simple example. The extra/unknown replica set names found in the backup are: rs1''"

section \<open>Scoped secrets (\<^verbatim>\<open>charm.py\<close>)\<close>

datatype scope = APP_SCOPE | UNIT_SCOPE

text \<open>A dictionary with string keys and values, as an association list with distinct
  keys.\<close>

type_synonym dict = "(string \<times> string) list"

definition SECRET_INTERNAL_LABEL :: string where "SECRET_INTERNAL_LABEL = ''internal-secret''"
definition SECRET_DELETED_LABEL :: string where "SECRET_DELETED_LABEL = ''None''"

text \<open>
  The state that the secret functions read and write: whether this Juju has secrets,
  whether the peer relation exists, whether this unit is the leader, the peer relation
  data of the application and of the unit, the per-scope cache
  \<^verbatim>\<open>self.secrets[scope]\<close>, the secrets that Juju holds, by identifier, and the
  identifier of the secret that \<^verbatim>\<open>add_secret\<close> returns next. The cache keys
  \<^verbatim>\<open>secret\<close> and \<^verbatim>\<open>cache\<close> are only ever set together, so the cache of a scope is
  either empty or a secret (its identifier) with its cached content.
\<close>

record secrets =
  has_secrets :: bool
  peer_relation :: bool
  unit_is_leader :: bool
  peer_data :: "scope \<Rightarrow> dict"
  cached :: "scope \<Rightarrow> (string \<times> dict) option"
  juju_secrets :: "string \<rightharpoonup> dict"
  new_secret :: "string option"

text \<open>
  Who may write a scope: every unit writes its own data bag and its own secrets, only
  the leader writes the application's. A write to relation data by another unit raises
  \<^verbatim>\<open>RelationDataAccessError\<close>; adding a secret or setting its content raises
  \<^verbatim>\<open>ModelError\<close>. Reading the peer relation's data and the application's secret is
  open to every unit. Deleting an absent key from relation data is not an error.
\<close>

definition may_write :: "secrets \<Rightarrow> scope \<Rightarrow> bool" where
  "may_write st sc = (sc = UNIT_SCOPE \<or> unit_is_leader st)"

text \<open>Python's truth value of an \<^verbatim>\<open>Optional[str]\<close>.\<close>

fun truthy :: "string option \<Rightarrow> bool" where
  "truthy None = False"
| "truthy (Some v) = (v \<noteq> [])"

text \<open>\<^verbatim>\<open>_juju_secrets_get\<close>: the result is used for its truth value only.
  \<^verbatim>\<open>_peer_data\<close> reads \<^verbatim>\<open>self.relation.data\<close>, which raises
  \<^verbatim>\<open>AttributeError\<close> when the peer relation does not exist.\<close>

definition juju_secrets_get :: "scope \<Rightarrow> secrets \<Rightarrow> (exn + bool) \<times> secrets" where
  "juju_secrets_get sc st =
     (if \<not> peer_relation st then (Inl AttributeError, st)
      else if \<not> truthy (map_of (peer_data st sc) SECRET_INTERNAL_LABEL) then (Inr False, st)
      else
        (case cached st sc of
           Some (secret, secret_cache) \<Rightarrow> (Inr (secret_cache \<noteq> []), st)
         | None \<Rightarrow>
             (case map_of (peer_data st sc) SECRET_INTERNAL_LABEL of
                None \<Rightarrow> (Inr False, st)
              | Some secret_id \<Rightarrow>
                  (case juju_secrets st secret_id of
                     None \<Rightarrow> (Inr False, st)
                   | Some content \<Rightarrow>
                       (Inr (content \<noteq> []),
                        st\<lparr>cached := (cached st)(sc := Some (secret_id, content))\<rparr>)))))"

definition juju_secret_get_key ::
  "scope \<Rightarrow> string \<Rightarrow> secrets \<Rightarrow> (exn + string option) \<times> secrets" where
  "juju_secret_get_key sc key st =
     (if key = [] then (Inr None, st)
      else
        (case juju_secrets_get sc st of
           (Inl err, st1) \<Rightarrow> (Inl err, st1)
         | (Inr False, st1) \<Rightarrow> (Inr None, st1)
         | (Inr True, st1) \<Rightarrow>
             (case cached st1 sc of
                None \<Rightarrow> (Inr None, st1)
              | Some (secret, secret_cache) \<Rightarrow>
                  if secret_cache = [] then (Inr None, st1)
                  else
                    (case map_of secret_cache key of
                       None \<Rightarrow> (Inr None, st1)
                     | Some secret_data \<Rightarrow>
                         if secret_data \<noteq> [] \<and> secret_data \<noteq> SECRET_DELETED_LABEL
                         then (Inr (Some secret_data), st1)
                         else (Inr None, st1)))))"

definition get_secret ::
  "scope \<Rightarrow> string \<Rightarrow> secrets \<Rightarrow> (exn + string option) \<times> secrets" where
  "get_secret sc key st =
     (if \<not> peer_relation st then (Inl AttributeError, st)
      else if has_secrets st then juju_secret_get_key sc key st
      else (Inr (map_of (peer_data st sc) key), st))"

text \<open>\<^verbatim>\<open>_juju_secret_set\<close>: the cached dictionary is updated in place and handed to
  \<^verbatim>\<open>set_content\<close>; without a secret for the scope a new one is added and its
  identifier is written to the peer data.\<close>

definition juju_secret_set ::
  "scope \<Rightarrow> string \<Rightarrow> string \<Rightarrow> secrets \<Rightarrow> (exn + string) \<times> secrets" where
  "juju_secret_set sc key v st =
     (case juju_secrets_get sc st of
        (Inl err, st1) \<Rightarrow> (Inl err, st1)
      | (Inr _, st1) \<Rightarrow>
          (case cached st1 sc of
             Some (secret, secret_cache) \<Rightarrow>
               if map_of secret_cache key = Some v then (Inr secret, st1)
               else
                 (let secret_cache' = AList.update key v secret_cache;
                      st2 = st1\<lparr>cached := (cached st1)(sc := Some (secret, secret_cache'))\<rparr>
                  in if \<not> may_write st2 sc then (Inl ModelError, st2)
                     else (Inr secret,
                           st2\<lparr>juju_secrets := (juju_secrets st2)(secret \<mapsto> secret_cache')\<rparr>))
           | None \<Rightarrow>
               if \<not> may_write st1 sc then (Inl ModelError, st1)
               else
                 (case new_secret st1 of
                    None \<Rightarrow> (Inl SecretNotAddedError, st1)
                  | Some secret \<Rightarrow>
                      (Inr secret,
                       st1\<lparr>juju_secrets := (juju_secrets st1)(secret \<mapsto> [(key, v)]),
                           cached := (cached st1)(sc := Some (secret, [(key, v)])),
                           peer_data := (peer_data st1)
                             (sc := AList.update SECRET_INTERNAL_LABEL secret (peer_data st1 sc))\<rparr>))))"

text \<open>\<^verbatim>\<open>_juju_secret_remove\<close>: without a secret for the scope, or without the key
  in its content, nothing is written; otherwise the key's value in the cached dictionary
  becomes the deleted label, and the dictionary is handed to \<^verbatim>\<open>set_content\<close>.\<close>

definition juju_secret_remove :: "scope \<Rightarrow> string \<Rightarrow> secrets \<Rightarrow> (exn + unit) \<times> secrets" where
  "juju_secret_remove sc key st =
     (case juju_secrets_get sc st of
        (Inl err, st1) \<Rightarrow> (Inl err, st1)
      | (Inr _, st1) \<Rightarrow>
          (case cached st1 sc of
             None \<Rightarrow> (Inr (), st1)
           | Some (secret, secret_cache) \<Rightarrow>
               if secret_cache = [] \<or> map_of secret_cache key = None then (Inr (), st1)
               else
                 (let secret_cache' = AList.update key SECRET_DELETED_LABEL secret_cache;
                      st2 = st1\<lparr>cached := (cached st1)(sc := Some (secret, secret_cache'))\<rparr>
                  in if \<not> may_write st2 sc then (Inl ModelError, st2)
                     else (Inr (),
                           st2\<lparr>juju_secrets := (juju_secrets st2)(secret \<mapsto> secret_cache')\<rparr>))))"

definition remove_secret :: "scope \<Rightarrow> string \<Rightarrow> secrets \<Rightarrow> (exn + unit) \<times> secrets" where
  "remove_secret sc key st =
     (if has_secrets st then juju_secret_remove sc key st
      else if \<not> peer_relation st then (Inl AttributeError, st)
      else if \<not> may_write st sc then (Inl RelationDataAccessError, st)
      else (Inr (),
            st\<lparr>peer_data := (peer_data st)(sc := AList.delete key (peer_data st sc))\<rparr>))"

text \<open>\<^verbatim>\<open>set_secret\<close>: the result is the secret identifier, or \<^verbatim>\<open>None\<close>; a falsy
  value hands over to \<^verbatim>\<open>remove_secret\<close>.\<close>

definition removal_result :: "(exn + unit) \<times> secrets \<Rightarrow> (exn + string option) \<times> secrets" where
  "removal_result rs =
     (case rs of
        (Inl err, st) \<Rightarrow> (Inl err, st)
      | (Inr _, st) \<Rightarrow> (Inr None, st))"

definition set_secret ::
  "scope \<Rightarrow> string \<Rightarrow> string option \<Rightarrow> secrets \<Rightarrow> (exn + string option) \<times> secrets" where
  "set_secret sc key val st =
     (case val of
        None \<Rightarrow> removal_result (remove_secret sc key st)
      | Some v \<Rightarrow>
          if v = [] then removal_result (remove_secret sc key st)
          else if has_secrets st
          then
            (case juju_secret_set sc key v st of
               (Inl err, st1) \<Rightarrow> (Inl err, st1)
             | (Inr secret, st1) \<Rightarrow> (Inr (Some secret), st1))
          else if \<not> peer_relation st then (Inl AttributeError, st)
          else if \<not> may_write st sc then (Inl RelationDataAccessError, st)
          else
            (Inr None,
             st\<lparr>peer_data := (peer_data st)(sc := AList.update key v (peer_data st sc))\<rparr>))"

text \<open>An application scope with a Juju secret that holds the operator password, seen
  from the leader with a cache that is still empty; the same data kept in the peer
  relation of a Juju without secrets; and that peer relation seen from a unit that is
  not the leader.\<close>

definition demo_secrets :: secrets where
  "demo_secrets =
     \<lparr> has_secrets = True, peer_relation = True, unit_is_leader = True,
       peer_data = (\<lambda>sc. if sc = APP_SCOPE then [(''internal-secret'', ''secret:1'')] else []),
       cached = (\<lambda>sc. None),
       juju_secrets = [''secret:1'' \<mapsto> [(''operator-password'', ''pw1'')]],
       new_secret = Some ''secret:2'' \<rparr>"

definition demo_peer_secrets :: secrets where
  "demo_peer_secrets =
     \<lparr> has_secrets = False, peer_relation = True, unit_is_leader = True,
       peer_data = (\<lambda>sc. if sc = APP_SCOPE then [(''operator-password'', ''pw1'')] else []),
       cached = (\<lambda>sc. None),
       juju_secrets = Map.empty,
       new_secret = None \<rparr>"

definition demo_follower_secrets :: secrets where
  "demo_follower_secrets = demo_peer_secrets\<lparr> unit_is_leader := False \<rparr>"

section \<open>The replica set after a pass\<close>

text \<open>The members of the replica set after the cluster has carried out the membership
  calls of a pass: an addition adds the host, a removal takes it out.\<close>

fun apply_call :: "string set \<Rightarrow> call \<Rightarrow> string set" where
  "apply_call members (AddReplsetMember h) = insert h members"
| "apply_call members (RemoveReplsetMember h) = members - {h}"
| "apply_call members _ = members"

definition cluster_after :: "call list \<Rightarrow> string set \<Rightarrow> string set" where
  "cluster_after tr members = foldl apply_call members tr"

section \<open>Properties of the reconciliation pass\<close>

lemma calls_log [simp]: "calls (log c s) = calls s @ [c]" by (simp add: log_def)
lemma unit_status_log [simp]: "unit_status (log c s) = unit_status s" by (simp add: log_def)

lemma remove_loop_calls:
  "calls (snd (remove_loop e ms s)) = calls s @ map RemoveReplsetMember (removed e ms)"
  by (induction ms arbitrary: s) (auto split: option.splits)

lemma add_loop_calls:
  "calls (snd (add_loop e ms s)) = calls s @ add_calls e ms"
  by (induction ms arbitrary: s) (auto split: option.splits simp: Let_def)

lemma add_calls_no_remove: "c \<in> set (add_calls e ms) \<Longrightarrow> \<not> is_remove c"
  by (induction ms) (auto split: if_splits)

lemma remove_loop_callsD:
  "remove_loop e ms s = (r, s') \<Longrightarrow> calls s' = calls s @ map RemoveReplsetMember (removed e ms)"
  using remove_loop_calls [of e ms s] by simp

lemma add_loop_callsD:
  "add_loop e ms s = (r, s') \<Longrightarrow> calls s' = calls s @ add_calls e ms"
  using add_loop_calls [of e ms s] by simp

lemma note_departure_calls:
  "note_departure e ev s = Inr s' \<Longrightarrow> calls s' = calls s \<and> unit_status s' = unit_status s"
  by (auto simp: note_departure_def split: event.splits option.splits if_splits)

lemma except_driver_errors_calls:
  "calls (snd (except_driver_errors (r, s))) = calls s
   \<or> calls (snd (except_driver_errors (r, s))) = calls s @ [Defer]"
proof (cases r)
  case (Inl err)
  then show ?thesis by (cases err) (simp_all add: except_driver_errors_def)
next
  case (Inr u)
  then show ?thesis by (simp add: except_driver_errors_def)
qed

lemma handler_calls_cases:
  "calls (snd (relation_changes_handler e ev s)) = calls s @ [ConnectMongodbExporter, ConnectPbmAgent]
   \<or> calls (snd (relation_changes_handler e ev s)) =
        calls s @ [ConnectMongodbExporter, ConnectPbmAgent, GenerateSecrets]
   \<or> (\<exists>s3 tl. calls s3 = calls s @ [ConnectMongodbExporter, ConnectPbmAgent, GenerateSecrets]
          \<and> unit_status s3 = unit_status s
          \<and> (tl = [] \<or> tl = [Defer])
          \<and> is_leader e \<and> db_initialised e
          \<and> calls (snd (relation_changes_handler e ev s)) = calls (snd (reconfigure e ev s3)) @ tl)"
proof -
  define s1 where "s1 = log ConnectPbmAgent (log ConnectMongodbExporter s)"
  have c1: "calls s1 = calls s @ [ConnectMongodbExporter, ConnectPbmAgent]"
    by (simp add: s1_def)
  have u1: "unit_status s1 = unit_status s"
    by (simp add: s1_def)
  have h: "relation_changes_handler e ev s =
     (case note_departure e ev s1 of
        Inl err \<Rightarrow> (Some err, s1)
      | Inr s2 \<Rightarrow>
          if \<not> is_leader e then (None, s2)
          else if \<not> db_initialised e then (None, log GenerateSecrets s2)
             else
               (case mongodb_hosts e of
                  Inl err \<Rightarrow> (Some err, log GenerateSecrets s2)
                | Inr _ \<Rightarrow> except_driver_errors (reconfigure e ev (log GenerateSecrets s2))))"
    by (simp add: relation_changes_handler_def s1_def Let_def split: sum.splits)
  show ?thesis
  proof (cases "note_departure e ev s1")
    case (Inl err)
    then show ?thesis using c1 by (simp add: h)
  next
    case nd: (Inr s2)
    note ndc = note_departure_calls [OF nd]
    define s3 where "s3 = log GenerateSecrets s2"
    have c3: "calls s3 = calls s @ [ConnectMongodbExporter, ConnectPbmAgent, GenerateSecrets]"
      using ndc c1 by (simp add: s3_def)
    have u3: "unit_status s3 = unit_status s"
      using ndc u1 by (simp add: s3_def)
    have c2: "calls s2 = calls s @ [ConnectMongodbExporter, ConnectPbmAgent]"
      using ndc c1 by simp
    show ?thesis
    proof (cases "is_leader e")
      case False
      then show ?thesis using nd c2 by (simp add: h)
    next
      case leader: True
      show ?thesis
      proof (cases "db_initialised e")
        case False
        then show ?thesis using nd leader c3 by (simp add: h s3_def)
      next
        case init: True
        show ?thesis
        proof (cases "mongodb_hosts e")
          case (Inl err)
          then show ?thesis using nd leader init c3 by (simp add: h s3_def)
        next
          case (Inr hs)
          obtain r s4 where rc: "reconfigure e ev s3 = (r, s4)" by (cases "reconfigure e ev s3")
          have hh: "relation_changes_handler e ev s = except_driver_errors (r, s4)"
            using nd leader init Inr rc by (simp add: h s3_def)
          have "calls (snd (relation_changes_handler e ev s)) = calls (snd (reconfigure e ev s3)) @ []
              \<or> calls (snd (relation_changes_handler e ev s)) = calls (snd (reconfigure e ev s3)) @ [Defer]"
            using except_driver_errors_calls [of r s4] by (simp add: hh rc)
          then show ?thesis using c3 u3 leader init by blast
        qed
      qed
    qed
  qed
qed

lemma split_at_add:
  assumes "X @ Y = pre @ c # post" "is_add c" "\<forall>x\<in>set X. \<not> is_add x"
  shows "\<exists>Y1. pre = X @ Y1 \<and> Y = Y1 @ c # post"
  using assms by (auto simp: append_eq_append_conv2 append_eq_Cons_conv)

lemma remove_loop_ok: "fst (remove_loop e ms s) = Inr u \<Longrightarrow> removed e ms = ms"
  by (induction ms arbitrary: s) (auto split: option.splits simp: Let_def)

lemma reconfigure_calls_cases:
  "calls (snd (reconfigure e ev s)) = calls s @ [GetReplsetMembers]
   \<or> (\<exists>live hosts. get_replset_members e = Inr live \<and> mongodb_hosts e = Inr hosts \<and> live \<noteq> hosts \<and>
        (calls (snd (reconfigure e ev s)) =
           calls s @ GetReplsetMembers # map RemoveReplsetMember (removed e (set_iter e (live - hosts)))
         \<or> (\<exists>hosts' sfx. hosts_without_departing e ev hosts = Inr hosts'
               \<and> (\<forall>c\<in>set sfx. \<not> is_add c \<and> \<not> is_remove c)
               \<and> calls (snd (reconfigure e ev s)) =
                   calls s @ GetReplsetMembers # map RemoveReplsetMember (set_iter e (live - hosts))
                     @ add_calls e (set_iter e (hosts' - live)) @ sfx)))"
proof (cases "get_replset_members e")
  case (Inl err)
  then show ?thesis by (simp add: reconfigure_def)
next
  case live: (Inr live)
  show ?thesis
  proof (cases "mongodb_hosts e")
    case (Inl err)
    then show ?thesis using live by (simp add: reconfigure_def)
  next
    case hosts: (Inr hosts)
    show ?thesis
    proof (cases "live = hosts")
      case True
      then show ?thesis using live hosts
        by (simp add: reconfigure_def set_leader_unit_active_if_needed_def Let_def)
    next
      case ne: False
      define s1 where "s1 = log GetReplsetMembers s"
      let ?rs = "set_iter e (live - hosts)"
      obtain r s2 where rl: "remove_loop e ?rs s1 = (r, s2)" by (cases "remove_loop e ?rs s1")
      have c2: "calls s2 = calls s @ GetReplsetMembers # map RemoveReplsetMember (removed e ?rs)"
        using remove_loop_callsD [OF rl] by (simp add: s1_def)
      have h: "reconfigure e ev s =
          (case r of Inl err \<Rightarrow> (Inl err, s2)
           | Inr _ \<Rightarrow>
              (case hosts_without_departing e ev hosts of
                 Inl err \<Rightarrow> (Inl err, s2)
               | Inr hosts' \<Rightarrow>
                   (case add_loop e (set_iter e (hosts' - live)) s2 of
                      (Inl err, s3) \<Rightarrow> (Inl err, s3)
                    | (Inr _, s3) \<Rightarrow>
                        (case get_users e of
                           Some err \<Rightarrow> (Inl err, log GetUsers s3)
                         | None \<Rightarrow> (Inr (), log UpdateAppRelationData (log GetUsers s3))))))"
        using live hosts ne rl
        by (simp add: reconfigure_def Let_def s1_def remove_units_from_replica_set_def
            add_units_from_replica_set_def split: sum.splits prod.splits option.splits)
      show ?thesis
      proof (cases r)
        case (Inl err)
        then show ?thesis using live hosts ne c2 by (simp add: h)
      next
        case rok: (Inr u)
        have all: "removed e ?rs = ?rs"
          using remove_loop_ok [of e ?rs s1 u] rl rok by simp
        show ?thesis
        proof (cases "hosts_without_departing e ev hosts")
          case (Inl err)
          then show ?thesis using live hosts ne c2 rok by (simp add: h)
        next
          case hw: (Inr hosts')
          let ?as = "set_iter e (hosts' - live)"
          obtain r3 s3 where al: "add_loop e ?as s2 = (r3, s3)" by (cases "add_loop e ?as s2")
          have c3: "calls s3 = calls s @ GetReplsetMembers # map RemoveReplsetMember ?rs @ add_calls e ?as"
            using add_loop_callsD [OF al] c2 all by simp
          have "\<exists>sfx. (\<forall>c\<in>set sfx. \<not> is_add c \<and> \<not> is_remove c) \<and>
                  calls (snd (reconfigure e ev s)) = calls s3 @ sfx"
          proof (cases r3)
            case (Inl err)
            then show ?thesis using rok hw al by (simp add: h)
          next
            case (Inr u3)
            show ?thesis
            proof (cases "get_users e")
              case None
              have "calls (snd (reconfigure e ev s)) = calls s3 @ [GetUsers, UpdateAppRelationData]"
                using rok hw al Inr None by (simp add: h)
              then show ?thesis by simp
            next
              case (Some err)
              have "calls (snd (reconfigure e ev s)) = calls s3 @ [GetUsers]"
                using rok hw al Inr Some by (simp add: h)
              then show ?thesis by simp
            qed
          qed
          then show ?thesis using live hosts ne hw c3 by auto
        qed
      qed
    qed
  qed
qed


lemma neutral_simps [simp]:
  "neutral []"
  "neutral (c # cs) = (\<not> is_add c \<and> \<not> is_remove c \<and> neutral cs)"
  "neutral (xs @ ys) = (neutral xs \<and> neutral ys)"
  by (auto simp: neutral_def)

lemma handler_shape:
  "\<exists>p rs A sfx.
     calls (snd (relation_changes_handler e ev s)) = calls s @ p @ map RemoveReplsetMember rs @ A @ sfx
     \<and> neutral p \<and> neutral sfx
     \<and> (A = [] \<or>
         (\<exists>live hosts hosts'. get_replset_members e = Inr live \<and> mongodb_hosts e = Inr hosts
            \<and> hosts_without_departing e ev hosts = Inr hosts'
            \<and> rs = set_iter e (live - hosts)
            \<and> A = add_calls e (set_iter e (hosts' - live))))"
  (is "\<exists>p rs A sfx. ?P p rs A sfx")
proof -
  let ?tr = "calls (snd (relation_changes_handler e ev s))"
  consider (a) "?tr = calls s @ [ConnectMongodbExporter, ConnectPbmAgent]"
    | (b) "?tr = calls s @ [ConnectMongodbExporter, ConnectPbmAgent, GenerateSecrets]"
    | (c) s3 tl where "calls s3 = calls s @ [ConnectMongodbExporter, ConnectPbmAgent, GenerateSecrets]"
        "tl = [] \<or> tl = [Defer]" "?tr = calls (snd (reconfigure e ev s3)) @ tl"
    using handler_calls_cases [of e ev s] by (elim disjE exE conjE) blast+
  then show ?thesis
  proof cases
    case a
    then have "?P [ConnectMongodbExporter, ConnectPbmAgent] [] [] []" by simp
    then show ?thesis by blast
  next
    case b
    then have "?P [ConnectMongodbExporter, ConnectPbmAgent, GenerateSecrets] [] [] []" by simp
    then show ?thesis by blast
  next
    case c
    let ?p = "[ConnectMongodbExporter, ConnectPbmAgent, GenerateSecrets, GetReplsetMembers]"
    have ntl: "neutral tl" using c(2) by auto
    consider (i) "calls (snd (reconfigure e ev s3)) = calls s3 @ [GetReplsetMembers]"
      | (ii) live hosts where "get_replset_members e = Inr live" "mongodb_hosts e = Inr hosts"
          "calls (snd (reconfigure e ev s3)) =
             calls s3 @ GetReplsetMembers # map RemoveReplsetMember (removed e (set_iter e (live - hosts)))"
      | (iii) live hosts hosts' sfx where "get_replset_members e = Inr live" "mongodb_hosts e = Inr hosts"
          "hosts_without_departing e ev hosts = Inr hosts'" "neutral sfx"
          "calls (snd (reconfigure e ev s3)) =
             calls s3 @ GetReplsetMembers # map RemoveReplsetMember (set_iter e (live - hosts))
               @ add_calls e (set_iter e (hosts' - live)) @ sfx"
      using reconfigure_calls_cases [of e ev s3] unfolding neutral_def
      by (elim disjE exE conjE) blast+
    then show ?thesis
    proof cases
      case i
      then have "?P ?p [] [] tl" using c ntl by simp
      then show ?thesis by blast
    next
      case ii
      then have "?P ?p (removed e (set_iter e (live - hosts))) [] tl" using c ntl by simp
      then show ?thesis by blast
    next
      case iii
      then have "?P ?p (set_iter e (live - hosts)) (add_calls e (set_iter e (hosts' - live))) (sfx @ tl)"
        using c ntl by simp
      then show ?thesis by blast
    qed
  qed
qed


lemma filter_remove_neutral: "neutral p \<Longrightarrow> filter is_remove p = []"
  by (induction p) auto

lemma filter_remove_removes: "filter is_remove (map RemoveReplsetMember rs) = map RemoveReplsetMember rs"
  by (induction rs) auto

lemma no_add_removes: "c \<in> set (map RemoveReplsetMember rs) \<Longrightarrow> \<not> is_add c"
  by auto

lemma filter_remove_none: "\<forall>c\<in>set ys. \<not> is_remove c \<Longrightarrow> filter is_remove ys = []"
  by (induction ys) auto

lemma add_calls_members: "AddReplsetMember m \<in> set (add_calls e ms) \<Longrightarrow> m \<in> set ms \<and> is_ready e m"
  by (induction ms) (auto split: if_splits)

lemma add_calls_checked:
  "add_calls e ms = pre @ AddReplsetMember m # post \<Longrightarrow> \<exists>pre'. pre = pre' @ [IsReady m]"
proof (induction ms arbitrary: pre)
  case Nil
  then show ?case by simp
next
  case (Cons x xs)
  then show ?case
    by (auto simp: Cons_eq_append_conv split: if_splits)
qed


lemma reconfigure_equal:
  "get_replset_members e = Inr live \<Longrightarrow> mongodb_hosts e = Inr live \<Longrightarrow>
   calls (snd (reconfigure e ev s)) = calls s @ [GetReplsetMembers]"
  by (simp add: reconfigure_def set_leader_unit_active_if_needed_def Let_def)


lemma add_calls_before_unready:
  "AddReplsetMember m \<in> set (add_calls e (pre @ h # post)) \<Longrightarrow> \<not> is_ready e h \<Longrightarrow> m \<in> set pre"
  by (induction pre) (auto split: if_splits)

lemma add_calls_stop:
  "\<forall>m\<in>set pre. is_ready e m \<and> add_replset_member e m = None \<Longrightarrow> \<not> is_ready e h \<Longrightarrow>
   add_calls e (pre @ h # post) =
     concat (map (\<lambda>m. [IsReady m, AddReplsetMember m]) pre) @ [IsReady h, Defer]"
  by (induction pre) auto

lemma add_loop_stop:
  "\<forall>m\<in>set pre. is_ready e m \<and> add_replset_member e m = None \<Longrightarrow> \<not> is_ready e h \<Longrightarrow>
   fst (add_loop e (pre @ h # post) s) = Inr ()"
  by (induction pre arbitrary: s) (auto simp: Let_def)

lemma issued_add_loop: "issued s (snd (add_loop e ms s)) = add_calls e ms"
  by (simp add: issued_def add_loop_calls)


lemma cluster_after_append [simp]:
  "cluster_after (xs @ ys) S = cluster_after ys (cluster_after xs S)"
  by (simp add: cluster_after_def)

lemma cluster_after_Nil [simp]: "cluster_after [] S = S"
  by (simp add: cluster_after_def)

lemma cluster_after_Cons [simp]: "cluster_after (c # cs) S = cluster_after cs (apply_call S c)"
  by (simp add: cluster_after_def)

lemma apply_call_neutral: "\<not> is_add c \<Longrightarrow> \<not> is_remove c \<Longrightarrow> apply_call S c = S"
  by (cases c) auto

lemma cluster_after_neutral: "neutral tr \<Longrightarrow> cluster_after tr S = S"
  by (induction tr arbitrary: S) (auto simp: apply_call_neutral)

lemma cluster_after_removes: "cluster_after (map RemoveReplsetMember rs) S = S - set rs"
  by (induction rs arbitrary: S) auto

lemma cluster_after_adds:
  "cluster_after (concat (map (\<lambda>m. [IsReady m, AddReplsetMember m]) ms)) S = S \<union> set ms"
  by (induction ms arbitrary: S) auto

lemma removed_all: "\<forall>m. remove_replset_member e m = None \<Longrightarrow> removed e ms = ms"
  by (induction ms) auto

lemma add_calls_all:
  "\<forall>m. add_replset_member e m = None \<Longrightarrow> \<forall>m. is_ready e m \<Longrightarrow>
   add_calls e ms = concat (map (\<lambda>m. [IsReady m, AddReplsetMember m]) ms)"
  by (induction ms) auto

lemma remove_loop_fst: "\<forall>m. remove_replset_member e m = None \<Longrightarrow> fst (remove_loop e ms s) = Inr ()"
  by (induction ms arbitrary: s) (auto simp: Let_def)

lemma add_loop_fst:
  "\<forall>m. add_replset_member e m = None \<Longrightarrow> fst (add_loop e ms s) = Inr ()"
  by (induction ms arbitrary: s) (auto simp: Let_def)

lemma reconfigure_complete:
  assumes "get_replset_members e = Inr live" "mongodb_hosts e = Inr hosts" "live \<noteq> hosts"
    and "hosts_without_departing e ev hosts = Inr hosts'"
    and r: "\<forall>m. remove_replset_member e m = None"
    and a: "\<forall>m. add_replset_member e m = None" "\<forall>m. is_ready e m"
  shows "\<exists>sfx. neutral sfx \<and> calls (snd (reconfigure e ev s)) =
           calls s @ GetReplsetMembers # map RemoveReplsetMember (set_iter e (live - hosts))
             @ concat (map (\<lambda>m. [IsReady m, AddReplsetMember m]) (set_iter e (hosts' - live))) @ sfx"
proof -
  define s1 where "s1 = log GetReplsetMembers s"
  obtain r2 s2 where rl: "remove_loop e (set_iter e (live - hosts)) s1 = (r2, s2)"
    by (cases "remove_loop e (set_iter e (live - hosts)) s1")
  have r2: "r2 = Inr ()" using remove_loop_fst [OF r, of "set_iter e (live - hosts)" s1] rl by simp
  have c2: "calls s2 = calls s @ GetReplsetMembers # map RemoveReplsetMember (set_iter e (live - hosts))"
    using remove_loop_callsD [OF rl] by (simp add: s1_def removed_all [OF r])
  obtain r3 s3 where al: "add_loop e (set_iter e (hosts' - live)) s2 = (r3, s3)"
    by (cases "add_loop e (set_iter e (hosts' - live)) s2")
  have r3: "r3 = Inr ()" using add_loop_fst [OF a(1), of "set_iter e (hosts' - live)" s2] al by simp
  have c3: "calls s3 = calls s2 @ concat (map (\<lambda>m. [IsReady m, AddReplsetMember m]) (set_iter e (hosts' - live)))"
    using add_loop_callsD [OF al] by (simp add: add_calls_all [OF a])
  have "calls (snd (reconfigure e ev s)) = calls s3 @ [GetUsers, UpdateAppRelationData]
      \<or> calls (snd (reconfigure e ev s)) = calls s3 @ [GetUsers]"
    using assms(1-4) rl r2 al r3
    by (cases "get_users e")
      (simp_all add: reconfigure_def Let_def s1_def remove_units_from_replica_set_def
        add_units_from_replica_set_def)
  then show ?thesis using c2 c3 by auto
qed


lemma get_hostname_for_unit_members [simp]:
  "get_hostname_for_unit (e\<lparr>get_replset_members := x\<rparr>) = get_hostname_for_unit e"
  by (rule ext) (simp add: get_hostname_for_unit_def split: list.splits)

lemma mongodb_hosts_members [simp]:
  "mongodb_hosts (e\<lparr>get_replset_members := x\<rparr>) = mongodb_hosts e"
  by (simp add: mongodb_hosts_def unit_hosts_def split: sum.splits option.splits)

lemma hosts_without_departing_members [simp]:
  "hosts_without_departing (e\<lparr>get_replset_members := x\<rparr>) ev hosts = hosts_without_departing e ev hosts"
  by (simp add: hosts_without_departing_def split: event.splits option.splits)

lemma hosts_without_departing_subset:
  "hosts_without_departing e ev hosts = Inr hosts' \<Longrightarrow> hosts' \<subseteq> hosts"
  by (auto simp: hosts_without_departing_def split: event.splits option.splits sum.splits)

lemma mongodb_hosts_finite: "mongodb_hosts e = Inr hosts \<Longrightarrow> finite hosts"
  by (auto simp: mongodb_hosts_def split: sum.splits)

lemma handler_runs_reconfigure:
  assumes "is_leader e" "db_initialised e" "mongodb_hosts e = Inr hosts"
    and "\<forall>u. ev \<noteq> RelationDepartedEvent None u"
  shows "\<exists>s3 tl. calls s3 = calls s @ [ConnectMongodbExporter, ConnectPbmAgent, GenerateSecrets]
          \<and> neutral tl
          \<and> calls (snd (relation_changes_handler e ev s)) = calls (snd (reconfigure e ev s3)) @ tl"
proof -
  define s1 where "s1 = log ConnectPbmAgent (log ConnectMongodbExporter s)"
  obtain s2 where nd: "note_departure e ev s1 = Inr s2"
    using assms(4) by (cases ev; cases "note_departure e ev s1")
      (auto simp: note_departure_def split: option.splits if_splits)
  note ndc = note_departure_calls [OF nd]
  define s3 where "s3 = log GenerateSecrets s2"
  have c3: "calls s3 = calls s @ [ConnectMongodbExporter, ConnectPbmAgent, GenerateSecrets]"
    using ndc by (simp add: s3_def s1_def)
  obtain r s4 where rc: "reconfigure e ev s3 = (r, s4)" by (cases "reconfigure e ev s3")
  have hh: "relation_changes_handler e ev s = except_driver_errors (r, s4)"
    using nd assms(1-3) rc by (simp add: relation_changes_handler_def s1_def s3_def Let_def)
  have "calls (snd (relation_changes_handler e ev s)) = calls (snd (reconfigure e ev s3)) @ []
      \<or> calls (snd (relation_changes_handler e ev s)) = calls (snd (reconfigure e ev s3)) @ [Defer]"
    using except_driver_errors_calls [of r s4] by (simp add: hh rc)
  then show ?thesis using c3 by (elim disjE) (rule exI [of _ s3], auto)+
qed

lemma second_pass_neutral:
  assumes members: "get_replset_members e' = Inr live'" and hosts: "mongodb_hosts e' = Inr hosts"
    and sub: "live' - hosts = {}"
    and add: "\<forall>hosts'. hosts_without_departing e' ev hosts = Inr hosts' \<longrightarrow> hosts' - live' = {}"
    and empty: "set_iter e' {} = []"
    and s: "calls s = []"
  shows "neutral (calls (snd (relation_changes_handler e' ev s)))"
proof -
  let ?tr = "calls (snd (relation_changes_handler e' ev s))"
  consider (a) "?tr = calls s @ [ConnectMongodbExporter, ConnectPbmAgent]"
    | (b) "?tr = calls s @ [ConnectMongodbExporter, ConnectPbmAgent, GenerateSecrets]"
    | (c) s3 tl where "calls s3 = calls s @ [ConnectMongodbExporter, ConnectPbmAgent, GenerateSecrets]"
        "tl = [] \<or> tl = [Defer]" "?tr = calls (snd (reconfigure e' ev s3)) @ tl"
    using handler_calls_cases [of e' ev s] by (elim disjE exE conjE) blast+
  then show ?thesis
  proof cases
    case a
    then show ?thesis using s by simp
  next
    case b
    then show ?thesis using s by simp
  next
    case c
    have ntl: "neutral tl" using c(2) by auto
    have e1: "set_iter e' (live' - hosts) = []" by (simp only: sub empty)
    have e2: "set_iter e' (hosts' - live') = []"
      if "hosts_without_departing e' ev hosts = Inr hosts'" for hosts'
      by (simp only: add [rule_format, OF that] empty)
    have "neutral (calls (snd (reconfigure e' ev s3)))"
      using reconfigure_calls_cases [of e' ev s3] members hosts c(1) s
      by (elim disjE exE conjE) (simp_all add: neutral_def e1 e2)
    then show ?thesis using c(3) ntl by simp
  qed
qed


lemma equal_sets_neutral:
  assumes "calls s = []" "get_replset_members e = Inr live" "mongodb_hosts e = Inr live"
  shows "neutral (calls (snd (relation_changes_handler e ev s)))"
  using handler_calls_cases [of e ev s] assms
  by (elim disjE exE conjE) (auto simp: reconfigure_equal [OF assms(2,3)])


section \<open>Claims about the reconciliation pass\<close>

text \<open>
  Claim C1. In a reconciliation pass every \<^verbatim>\<open>remove_replset_member\<close> call is issued
  before any \<^verbatim>\<open>add_replset_member\<close> call: once the handler has issued an addition,
  no removal follows, and at that point the removals issued are exactly the members of
  the replica set that are not among the desired hosts, in iteration order.
\<close>

theorem removals_before_additions:
  assumes "calls s = []"
    and "calls (snd (relation_changes_handler e ev s)) = pre @ AddReplsetMember a # post"
  shows "(\<forall>r. RemoveReplsetMember r \<notin> set post)
     \<and> (\<exists>live hosts. get_replset_members e = Inr live \<and> mongodb_hosts e = Inr hosts
           \<and> filter is_remove pre = map RemoveReplsetMember (set_iter e (live - hosts)))"
proof -
  obtain p rs A sfx where
    tr: "calls (snd (relation_changes_handler e ev s)) = calls s @ p @ map RemoveReplsetMember rs @ A @ sfx"
    and n: "neutral p" "neutral sfx"
    and A: "A = [] \<or>
         (\<exists>live hosts hosts'. get_replset_members e = Inr live \<and> mongodb_hosts e = Inr hosts
            \<and> hosts_without_departing e ev hosts = Inr hosts'
            \<and> rs = set_iter e (live - hosts)
            \<and> A = add_calls e (set_iter e (hosts' - live)))"
    using handler_shape [of e ev s] by blast
  have eq: "(p @ map RemoveReplsetMember rs) @ (A @ sfx) = pre @ AddReplsetMember a # post"
    using tr assms by simp
  have noadd: "\<forall>x\<in>set (p @ map RemoveReplsetMember rs). \<not> is_add x"
    using n(1) by (auto simp: neutral_def)
  obtain Y1 where Y1: "pre = (p @ map RemoveReplsetMember rs) @ Y1" "A @ sfx = Y1 @ AddReplsetMember a # post"
    using split_at_add [OF eq _ noadd] by auto
  have norem: "\<forall>c\<in>set (A @ sfx). \<not> is_remove c"
    using A n(2) by (auto simp: neutral_def dest: add_calls_no_remove)
  have "A \<noteq> []"
  proof
    assume "A = []"
    then have "AddReplsetMember a \<in> set sfx" using Y1(2) by simp
    then show False using n(2) by (auto simp: neutral_def)
  qed
  then obtain live hosts where lh: "get_replset_members e = Inr live" "mongodb_hosts e = Inr hosts"
      "rs = set_iter e (live - hosts)"
    using A by blast
  have post: "\<forall>c\<in>set post. \<not> is_remove c" and y1: "\<forall>c\<in>set Y1. \<not> is_remove c"
    using norem Y1(2) by auto
  have "filter is_remove pre = map RemoveReplsetMember rs"
    using Y1(1) n(1) y1 by (simp add: filter_remove_neutral filter_remove_removes filter_remove_none)
  then show ?thesis using post lh by auto
qed


theorem removals_before_additions_witness:
  "calls (snd (relation_changes_handler demo_env RelationChangedEvent fresh)) =
     [ConnectMongodbExporter, ConnectPbmAgent, GenerateSecrets, GetReplsetMembers,
      RemoveReplsetMember host_B, IsReady host_C]
     @ AddReplsetMember host_C # [GetUsers, UpdateAppRelationData]
   \<and> (\<forall>r. RemoveReplsetMember r \<notin> set [GetUsers, UpdateAppRelationData])
   \<and> (\<exists>live hosts. get_replset_members demo_env = Inr live \<and> mongodb_hosts demo_env = Inr hosts
         \<and> filter is_remove [ConnectMongodbExporter, ConnectPbmAgent, GenerateSecrets,
               GetReplsetMembers, RemoveReplsetMember host_B, IsReady host_C]
             = map RemoveReplsetMember (set_iter demo_env (live - hosts)))"
proof -
  have f: "calls fresh = []" by (simp add: fresh_def)
  have t: "calls (snd (relation_changes_handler demo_env RelationChangedEvent fresh)) =
     [ConnectMongodbExporter, ConnectPbmAgent, GenerateSecrets, GetReplsetMembers,
      RemoveReplsetMember host_B, IsReady host_C]
     @ AddReplsetMember host_C # [GetUsers, UpdateAppRelationData]"
    by code_simp
  show ?thesis using removals_before_additions [OF f t] t by simp
qed


text \<open>
  Claim C4. When the trigger is a \<^verbatim>\<open>RelationDepartedEvent\<close> whose unit is B, the pass
  never issues \<^verbatim>\<open>add_replset_member\<close> for B's hostname, whether or not the peer
  relation still lists B and whether or not B is in the replica set.
\<close>

theorem departing_unit_not_added:
  assumes "calls s = []"
    and "ev = RelationDepartedEvent d (Some b)"
    and "get_hostname_for_unit e b = Inr hb"
    and "\<forall>S. set (set_iter e S) \<subseteq> S"
  shows "AddReplsetMember hb \<notin> set (calls (snd (relation_changes_handler e ev s)))"
proof
  assume inn: "AddReplsetMember hb \<in> set (calls (snd (relation_changes_handler e ev s)))"
  obtain p rs A sfx where
    tr: "calls (snd (relation_changes_handler e ev s)) = calls s @ p @ map RemoveReplsetMember rs @ A @ sfx"
    and n: "neutral p" "neutral sfx"
    and A: "A = [] \<or>
         (\<exists>live hosts hosts'. get_replset_members e = Inr live \<and> mongodb_hosts e = Inr hosts
            \<and> hosts_without_departing e ev hosts = Inr hosts'
            \<and> rs = set_iter e (live - hosts)
            \<and> A = add_calls e (set_iter e (hosts' - live)))"
    using handler_shape [of e ev s] by blast
  have "AddReplsetMember hb \<in> set A"
    using inn tr n assms(1) by (auto simp: neutral_def)
  then obtain live hosts hosts' where h: "hosts_without_departing e ev hosts = Inr hosts'"
      "AddReplsetMember hb \<in> set (add_calls e (set_iter e (hosts' - live)))"
    using A by auto
  have "hosts' = hosts - {hb}"
    using h(1) assms(2,3) by (simp add: hosts_without_departing_def)
  moreover have "hb \<in> hosts' - live"
    using add_calls_members [OF h(2)] assms(4) by blast
  ultimately show False by simp
qed


theorem departing_unit_not_added_witness:
  "mongodb_hosts demo_departing_env = Inr {host_A, host_B}
   \<and> get_replset_members demo_departing_env = Inr {host_A}
   \<and> AddReplsetMember host_B \<notin> set (calls (snd (relation_changes_handler demo_departing_env
         (RelationDepartedEvent (Some ''mongodb/1'') (Some ''mongodb/1'')) fresh)))"
proof -
  have f: "calls fresh = []" by (simp add: fresh_def)
  have g: "get_hostname_for_unit demo_departing_env ''mongodb/1'' = Inr host_B" by code_simp
  have i: "\<forall>S. set (set_iter demo_departing_env S) \<subseteq> S"
    by (auto simp: demo_departing_env_def demo_env_def demo_iter_def)
  have h: "mongodb_hosts demo_departing_env = Inr {host_A, host_B}" by code_simp
  have l: "get_replset_members demo_departing_env = Inr {host_A}"
    by (simp add: demo_departing_env_def)
  show ?thesis using departing_unit_not_added [OF f refl g i] h l by simp
qed

text \<open>
  Claim C5. When the replica-set members fetched from the cluster equal the desired
  hosts, the pass issues no addition and no removal.
\<close>

theorem reconcile_idempotent:
  assumes "calls s = []"
    and "get_replset_members e = Inr live"
    and "mongodb_hosts e = Inr live"
  shows "\<forall>c\<in>set (calls (snd (relation_changes_handler e ev s))). \<not> is_add c \<and> \<not> is_remove c"
proof -
  have "neutral (calls (snd (relation_changes_handler e ev s)))"
    using handler_calls_cases [of e ev s] assms
    by (elim disjE exE conjE) (auto simp: reconfigure_equal [OF assms(2,3)])
  then show ?thesis by (simp add: neutral_def)
qed


theorem reconcile_idempotent_witness:
  "calls (snd (relation_changes_handler demo_converged_env UpdateStatusEvent fresh)) =
     [ConnectMongodbExporter, ConnectPbmAgent, GenerateSecrets, GetReplsetMembers]
   \<and> filter (\<lambda>c. is_add c \<or> is_remove c)
         (calls (snd (relation_changes_handler demo_converged_env UpdateStatusEvent fresh))) = []"
proof -
  have f: "calls fresh = []" by (simp add: fresh_def)
  have l: "get_replset_members demo_converged_env = Inr {host_A, host_C}"
    by (simp add: demo_converged_env_def)
  have h: "mongodb_hosts demo_converged_env = Inr {host_A, host_C}" by code_simp
  have t: "calls (snd (relation_changes_handler demo_converged_env UpdateStatusEvent fresh)) =
     [ConnectMongodbExporter, ConnectPbmAgent, GenerateSecrets, GetReplsetMembers]" by code_simp
  show ?thesis using reconcile_idempotent [OF f l h, of UpdateStatusEvent] t
    by (simp add: filter_empty_conv)
qed


text \<open>
  Claim C8. In every addition phase each \<^verbatim>\<open>add_replset_member\<close> call comes
  directly after a readiness check of that member over a direct connection, and only
  for a member that is ready. When the iteration reaches a member that is not ready, no
  addition is issued for it or for any member after it; when the members before it were
  added, the phase ends there by deferring the event.
\<close>

theorem not_ready_host_aborts_additions:
  "(\<forall>a b m. issued s (snd (add_units_from_replica_set e units_to_add s)) = a @ AddReplsetMember m # b
        \<longrightarrow> is_ready e m \<and> (\<exists>a'. a = a' @ [IsReady m]))
   \<and> (\<forall>pre h post.
         set_iter e units_to_add = pre @ h # post \<and> distinct (set_iter e units_to_add)
           \<and> \<not> is_ready e h \<longrightarrow>
         (\<forall>m\<in>set (h # post).
            AddReplsetMember m \<notin> set (issued s (snd (add_units_from_replica_set e units_to_add s))))
         \<and> ((\<forall>m\<in>set pre. is_ready e m \<and> add_replset_member e m = None) \<longrightarrow>
               fst (add_units_from_replica_set e units_to_add s) = Inr ()
             \<and> issued s (snd (add_units_from_replica_set e units_to_add s)) =
                 concat (map (\<lambda>m. [IsReady m, AddReplsetMember m]) pre) @ [IsReady h, Defer]))"
proof -
  let ?tr = "issued s (snd (add_units_from_replica_set e units_to_add s))"
  have tr: "?tr = add_calls e (set_iter e units_to_add)"
    by (simp add: add_units_from_replica_set_def issued_add_loop)
  have checked: "\<forall>a b m. ?tr = a @ AddReplsetMember m # b
      \<longrightarrow> is_ready e m \<and> (\<exists>a'. a = a' @ [IsReady m])"
  proof (intro allI impI)
    fix a b m assume eq: "?tr = a @ AddReplsetMember m # b"
    then have "AddReplsetMember m \<in> set (add_calls e (set_iter e units_to_add))"
      using tr by simp
    then have "is_ready e m" using add_calls_members by blast
    moreover have "\<exists>a'. a = a' @ [IsReady m]"
      using add_calls_checked [of e "set_iter e units_to_add" a m b] eq tr by simp
    ultimately show "is_ready e m \<and> (\<exists>a'. a = a' @ [IsReady m])" by simp
  qed
  have aborts: "(\<forall>m\<in>set (h # post). AddReplsetMember m \<notin> set ?tr)
         \<and> ((\<forall>m\<in>set pre. is_ready e m \<and> add_replset_member e m = None) \<longrightarrow>
               fst (add_units_from_replica_set e units_to_add s) = Inr ()
             \<and> ?tr = concat (map (\<lambda>m. [IsReady m, AddReplsetMember m]) pre) @ [IsReady h, Defer])"
    if it: "set_iter e units_to_add = pre @ h # post"
      and di: "distinct (set_iter e units_to_add)"
      and nr: "\<not> is_ready e h"
    for pre h post
  proof -
    have d: "set pre \<inter> set (h # post) = {}" using it di by auto
    have 1: "\<forall>m\<in>set (h # post). AddReplsetMember m \<notin> set ?tr"
      using add_calls_before_unready [of _ e pre h post] nr d unfolding tr it by blast
    have 2: "(\<forall>m\<in>set pre. is_ready e m \<and> add_replset_member e m = None) \<longrightarrow>
            fst (add_units_from_replica_set e units_to_add s) = Inr ()
          \<and> ?tr = concat (map (\<lambda>m. [IsReady m, AddReplsetMember m]) pre) @ [IsReady h, Defer]"
      using nr unfolding tr it
      by (simp add: add_units_from_replica_set_def it add_loop_stop add_calls_stop)
    show ?thesis using 1 2 by blast
  qed
  show ?thesis using checked aborts by blast
qed

theorem not_ready_host_aborts_additions_witness:
  "fst (add_units_from_replica_set demo_unready_env {host_B, host_C, host_D} fresh) = Inr ()
   \<and> issued fresh (snd (add_units_from_replica_set demo_unready_env {host_B, host_C, host_D} fresh)) =
       [IsReady host_B, AddReplsetMember host_B, IsReady host_C, Defer]
   \<and> AddReplsetMember host_C \<notin> set (issued fresh (snd (add_units_from_replica_set demo_unready_env {host_B, host_C, host_D} fresh)))
   \<and> AddReplsetMember host_D \<notin> set (issued fresh (snd (add_units_from_replica_set demo_unready_env {host_B, host_C, host_D} fresh)))
   \<and> issued fresh (snd (add_units_from_replica_set demo_env {host_C, host_D} fresh)) =
       [IsReady host_C] @ AddReplsetMember host_C # [IsReady host_D, AddReplsetMember host_D]
   \<and> is_ready demo_env host_C"
proof -
  have i: "set_iter demo_unready_env {host_B, host_C, host_D} = [host_B] @ host_C # [host_D]"
    by code_simp
  have d: "distinct (set_iter demo_unready_env {host_B, host_C, host_D})" by code_simp
  have n: "\<not> is_ready demo_unready_env host_C" by code_simp
  have r: "\<forall>m\<in>set [host_B]. is_ready demo_unready_env m \<and> add_replset_member demo_unready_env m = None"
    by (simp add: demo_unready_env_def demo_env_def)
  note T = not_ready_host_aborts_additions [of fresh demo_unready_env "{host_B, host_C, host_D}"]
  from T [THEN conjunct2, rule_format, of "[host_B]" host_C "[host_D]"] i d n
  have "(\<forall>m\<in>set [host_B]. is_ready demo_unready_env m \<and> add_replset_member demo_unready_env m = None) \<longrightarrow>
      fst (add_units_from_replica_set demo_unready_env {host_B, host_C, host_D} fresh) = Inr ()
     \<and> issued fresh (snd (add_units_from_replica_set demo_unready_env {host_B, host_C, host_D} fresh)) =
       concat (map (\<lambda>m. [IsReady m, AddReplsetMember m]) [host_B]) @ [IsReady host_C, Defer]"
    by blast
  with r
  have e: "fst (add_units_from_replica_set demo_unready_env {host_B, host_C, host_D} fresh) = Inr ()
     \<and> issued fresh (snd (add_units_from_replica_set demo_unready_env {host_B, host_C, host_D} fresh)) =
       [IsReady host_B, AddReplsetMember host_B, IsReady host_C, Defer]"
    by simp
  have t: "issued fresh (snd (add_units_from_replica_set demo_env {host_C, host_D} fresh)) =
       [IsReady host_C] @ AddReplsetMember host_C # [IsReady host_D, AddReplsetMember host_D]"
    by code_simp
  from not_ready_host_aborts_additions [of fresh demo_env "{host_C, host_D}", THEN conjunct1,
      rule_format, OF t]
  have c: "is_ready demo_env host_C" by simp
  show ?thesis using e t c by (simp add: host_B_def host_C_def host_D_def)
qed


section \<open>Two passes in succession\<close>

text \<open>
  A pass whose driver calls all succeed and whose hosts are all ready leaves the replica
  set such that the next pass, with the same inventory and trigger, issues no addition
  and no removal: either the sets are equal then, or the only difference is the departing
  unit's host, which is neither added nor removed.
\<close>

lemma second_reconcile_issues_nothing:
  assumes s: "calls s = []" "calls s' = []"
    and gates: "is_leader e" "db_initialised e"
    and live: "get_replset_members e = Inr live" "finite live"
    and hosts: "mongodb_hosts e = Inr hosts"
    and ev: "\<forall>u. ev \<noteq> RelationDepartedEvent None u"
    and hw: "hosts_without_departing e ev hosts = Inr hosts'"
    and ok: "\<forall>m. remove_replset_member e m = None" "\<forall>m. add_replset_member e m = None"
      "\<forall>m. is_ready e m"
    and iter: "\<forall>S. finite S \<longrightarrow> set (set_iter e S) = S"
    and live': "live' = cluster_after (calls (snd (relation_changes_handler e ev s))) live"
  shows "neutral (calls (snd (relation_changes_handler (e\<lparr>get_replset_members := Inr live'\<rparr>) ev s')))"
proof -
  let ?e' = "e\<lparr>get_replset_members := Inr live'\<rparr>"
  have sub': "hosts' \<subseteq> hosts" using hw by (rule hosts_without_departing_subset)
  have fin: "finite hosts" using hosts by (rule mongodb_hosts_finite)
  have after: "live' - hosts = {} \<and> hosts' - live' = {}"
  proof (cases "live = hosts")
    case True
    have "neutral (calls (snd (relation_changes_handler e ev s)))"
      using s(1) live(1) hosts True by (simp add: equal_sets_neutral)
    then have "live' = live" using live' by (simp add: cluster_after_neutral)
    then show ?thesis using True sub' by auto
  next
    case False
    obtain s3 tl where h: "calls s3 = calls s @ [ConnectMongodbExporter, ConnectPbmAgent, GenerateSecrets]"
        "neutral tl"
        "calls (snd (relation_changes_handler e ev s)) = calls (snd (reconfigure e ev s3)) @ tl"
      using handler_runs_reconfigure [OF gates hosts ev, of s] by blast
    obtain sfx where r: "neutral sfx"
        "calls (snd (reconfigure e ev s3)) =
           calls s3 @ GetReplsetMembers # map RemoveReplsetMember (set_iter e (live - hosts))
             @ concat (map (\<lambda>m. [IsReady m, AddReplsetMember m]) (set_iter e (hosts' - live))) @ sfx"
      using reconfigure_complete [OF live(1) hosts False hw ok, of s3] by blast
    have rs: "set (set_iter e (live - hosts)) = live - hosts"
      using iter live(2) by simp
    have as: "set (set_iter e (hosts' - live)) = hosts' - live"
      using iter fin sub' by (simp add: finite_subset)
    have "live' = (live - (live - hosts)) \<union> (hosts' - live)"
      using live' h r s(1) rs as
      by (simp add: cluster_after_neutral cluster_after_removes cluster_after_adds)
    then show ?thesis using sub' by auto
  qed
  have "set (set_iter e {}) = {}" using iter by blast
  then have empty: "set_iter ?e' {} = []" by simp
  show ?thesis
  proof (rule second_pass_neutral [where live' = live' and hosts = hosts])
    show "get_replset_members ?e' = Inr live'" by simp
    show "mongodb_hosts ?e' = Inr hosts" using hosts by simp
    show "live' - hosts = {}" using after by simp
    show "\<forall>hosts''. hosts_without_departing ?e' ev hosts = Inr hosts'' \<longrightarrow> hosts'' - live' = {}"
      using hw after by simp
    show "set_iter ?e' {} = []" by (rule empty)
    show "calls s' = []" by (rule s(2))
  qed
qed


section \<open>Properties of the status projection\<close>

lemma get_pbm_status_calls:
  "calls (snd (get_pbm_status b p s)) =
     calls s @ GetBackupService # (if service_found p then [RunPbmCommand PBM_STATUS_CMD] else [])"
  by (simp add: get_pbm_status_def Let_def split: sum.splits)

lemma get_pbm_status_unit_status:
  "unit_status (snd (get_pbm_status b p s)) = unit_status s"
  by (simp add: get_pbm_status_def Let_def split: sum.splits)

lemma get_pbm_status_fst:
  "fst (get_pbm_status b p s) = fst (get_pbm_status b p s')"
  by (simp add: get_pbm_status_def Let_def split: sum.splits)

lemma project_status_unit_status:
  "unit_status (project_status b p s) =
     (if \<not> is_active (build_unit_status b) \<or> \<not> s3_relation b \<or> is_active (fst (get_pbm_status b p s))
      then build_unit_status b else fst (get_pbm_status b p s))"
proof -
  obtain st s2 where g: "get_pbm_status b p (log BuildUnitStatus s) = (st, s2)"
    by (cases "get_pbm_status b p (log BuildUnitStatus s)")
  have "fst (get_pbm_status b p s) = st"
    using get_pbm_status_fst [of b p s "log BuildUnitStatus s"] g by simp
  then show ?thesis using g by (simp add: project_status_def Let_def)
qed

lemma project_status_calls:
  "calls (project_status b p s) =
     calls s @ BuildUnitStatus # GetBackupService #
       (if service_found p then [RunPbmCommand PBM_STATUS_CMD] else []) @
       (if is_active (build_unit_status b) then [GetRelation S3_RELATION] else [])"
proof -
  obtain st s2 where g: "get_pbm_status b p (log BuildUnitStatus s) = (st, s2)"
    by (cases "get_pbm_status b p (log BuildUnitStatus s)")
  have "calls s2 = calls s @ BuildUnitStatus # GetBackupService #
       (if service_found p then [RunPbmCommand PBM_STATUS_CMD] else [])"
    using get_pbm_status_calls [of b p "log BuildUnitStatus s"] g by simp
  then show ?thesis using g by (simp add: project_status_def Let_def)
qed

lemma handler_calls_extend: "\<exists>tr. calls (snd (relation_changes_handler e ev s)) = calls s @ tr"
  using handler_shape [of e ev s] by blast

lemma update_status_reaches_projection:
  assumes "db_initialised e" "is_ready e ''localhost''" "fst (on_update_status e b p s) = None"
  shows "\<exists>s2 tr. calls s2 = calls s @ tr \<and> on_update_status e b p s = (None, project_status b p s2)"
proof (cases "mongodb_hosts e")
  case (Inl err)
  then show ?thesis using assms by (simp add: on_update_status_def)
next
  case (Inr hs)
  define s1 where "s1 = log (IsReady ''localhost'') s"
  define r where "r = (if is_leader e then relation_changes_handler e UpdateStatusEvent s1 else (None, s1))"
  obtain x s2 where rs: "r = (x, s2)" by (cases r)
  have h: "on_update_status e b p s = (case r of (Some err, s2) \<Rightarrow> (Some err, s2)
                 | (None, s2) \<Rightarrow> (None, project_status b p s2))"
    using assms(1,2) Inr by (simp add: on_update_status_def s1_def r_def Let_def)
  have x: "x = None" using assms(3) rs by (cases x) (simp_all add: h)
  have "\<exists>tr. calls s2 = calls s1 @ tr"
    using rs handler_calls_extend [of e UpdateStatusEvent s1]
    by (auto simp: r_def split: if_splits)
  then have "\<exists>tr. calls s2 = calls s @ tr" by (auto simp: s1_def)
  then show ?thesis using rs x by (auto simp: h)
qed


lemma issued_append: "calls s' = calls s @ tr \<Longrightarrow> issued s s' = tr"
  by (simp add: issued_def)


section \<open>Claims about the status projection\<close>

text \<open>
  Claim C6. When \<^verbatim>\<open>_on_update_status\<close> reaches the projection, a database status
  that is not active is the unit status, whatever the backup status is; the unit status
  differs from the database status only when the database status is active, the
  \<^verbatim>\<open>s3-credentials\<close> relation exists and the backup status is not active, and then
  it is the backup status.
\<close>

theorem database_status_takes_precedence:
  assumes "db_initialised e" and "is_ready e ''localhost''"
    and "fst (on_update_status e b p s) = None"
  shows "(\<not> is_active (build_unit_status b) \<longrightarrow>
            unit_status (snd (on_update_status e b p s)) = build_unit_status b)
     \<and> (unit_status (snd (on_update_status e b p s)) \<noteq> build_unit_status b \<longrightarrow>
            is_active (build_unit_status b) \<and> s3_relation b
            \<and> \<not> is_active (fst (get_pbm_status b p s))
            \<and> unit_status (snd (on_update_status e b p s)) = fst (get_pbm_status b p s))
     \<and> (is_active (build_unit_status b) \<and> s3_relation b \<and> \<not> is_active (fst (get_pbm_status b p s)) \<longrightarrow>
            unit_status (snd (on_update_status e b p s)) = fst (get_pbm_status b p s))"
proof -
  obtain s2 tr where s2: "on_update_status e b p s = (None, project_status b p s2)"
    using update_status_reaches_projection [OF assms] by blast
  have "fst (get_pbm_status b p s2) = fst (get_pbm_status b p s)"
    by (rule get_pbm_status_fst)
  then show ?thesis
    by (simp add: s2 project_status_unit_status)
qed


text \<open>
  Claim C3, as amended. When the database status is active and no \<^verbatim>\<open>s3-credentials\<close>
  relation exists, the unit status is the database status; the backup status is queried
  all the same: \<^verbatim>\<open>_get_pbm_status\<close> runs before the choice, and it executes the pbm
  status command whenever the backup service is found.
\<close>

theorem no_backup_relation_reports_database_status:
  assumes "db_initialised e" and "is_ready e ''localhost''"
    and "fst (on_update_status e b p s) = None"
    and "is_active (build_unit_status b)" and "\<not> s3_relation b"
  shows "unit_status (snd (on_update_status e b p s)) = build_unit_status b
     \<and> GetBackupService \<in> set (issued s (snd (on_update_status e b p s)))
     \<and> (service_found p \<longrightarrow>
          RunPbmCommand PBM_STATUS_CMD \<in> set (issued s (snd (on_update_status e b p s))))"
proof -
  obtain s2 tr where s2: "calls s2 = calls s @ tr"
      "on_update_status e b p s = (None, project_status b p s2)"
    using update_status_reaches_projection [OF assms(1-3)] by blast
  have "calls (snd (on_update_status e b p s)) = calls s @ (tr @ BuildUnitStatus # GetBackupService #
       (if service_found p then [RunPbmCommand PBM_STATUS_CMD] else []) @
       (if is_active (build_unit_status b) then [GetRelation S3_RELATION] else []))"
    by (simp add: s2 project_status_calls)
  from issued_append [OF this] show ?thesis
    using assms(4,5) by (simp add: s2 project_status_unit_status)
qed


text \<open>The claim C3 as stated fails: with an active database status and no relation the
  handler still executes the pbm status command.\<close>

theorem backup_status_never_queried_counterexample:
  "db_initialised demo_follower_env \<and> is_ready demo_follower_env ''localhost''
   \<and> is_active (build_unit_status demo_pbm) \<and> \<not> s3_relation demo_pbm
   \<and> on_update_status demo_follower_env demo_pbm demo_poll fresh =
       (None, \<lparr> calls = [IsReady ''localhost'', BuildUnitStatus, GetBackupService,
                  RunPbmCommand [''status'', ''-o'', ''json''], GetRelation ''s3-credentials''],
                unit_status = ActiveStatus [], unit_departed = None \<rparr>)"
  by code_simp


theorem database_status_takes_precedence_witness:
  "fst (get_pbm_status (demo_pbm_with (ErrorStatus ''database error'')) demo_poll fresh) = ActiveStatus []
   \<and> unit_status (snd (on_update_status demo_follower_env
         (demo_pbm_with (ErrorStatus ''database error'')) demo_poll fresh)) = ErrorStatus ''database error''
   \<and> unit_status (snd (on_update_status demo_follower_env
         (demo_pbm_with (BlockedStatus ''unit not in replica set'')) demo_poll fresh))
       = BlockedStatus ''unit not in replica set''"
proof -
  have i: "db_initialised demo_follower_env" by code_simp
  have r: "is_ready demo_follower_env ''localhost''" by code_simp
  have n1: "fst (on_update_status demo_follower_env (demo_pbm_with (ErrorStatus ''database error'')) demo_poll fresh) = None"
    by code_simp
  have n2: "fst (on_update_status demo_follower_env (demo_pbm_with (BlockedStatus ''unit not in replica set'')) demo_poll fresh) = None"
    by code_simp
  have a: "fst (get_pbm_status (demo_pbm_with (ErrorStatus ''database error'')) demo_poll fresh) = ActiveStatus []"
    by code_simp
  have b1: "build_unit_status (demo_pbm_with (ErrorStatus ''database error'')) = ErrorStatus ''database error''"
    by (simp add: demo_pbm_with_def)
  have b2: "build_unit_status (demo_pbm_with (BlockedStatus ''unit not in replica set'')) = BlockedStatus ''unit not in replica set''"
    by (simp add: demo_pbm_with_def)
  show ?thesis
    using database_status_takes_precedence [OF i r n1, THEN conjunct1]
      database_status_takes_precedence [OF i r n2, THEN conjunct1] a
    by (simp add: b1 b2)
qed

theorem no_backup_relation_reports_database_status_witness:
  "unit_status (snd (on_update_status demo_follower_env demo_pbm demo_poll fresh)) = ActiveStatus []
   \<and> GetBackupService \<in> set (issued fresh (snd (on_update_status demo_follower_env demo_pbm demo_poll fresh)))
   \<and> RunPbmCommand PBM_STATUS_CMD \<in> set (issued fresh (snd (on_update_status demo_follower_env demo_pbm demo_poll fresh)))"
proof -
  have i: "db_initialised demo_follower_env" by code_simp
  have r: "is_ready demo_follower_env ''localhost''" by code_simp
  have n: "fst (on_update_status demo_follower_env demo_pbm demo_poll fresh) = None" by code_simp
  have a: "is_active (build_unit_status demo_pbm)" by (simp add: demo_pbm_def)
  have s: "\<not> s3_relation demo_pbm" by (simp add: demo_pbm_def)
  have f: "service_found demo_poll" by (simp add: demo_poll_def)
  show ?thesis
    using no_backup_relation_reports_database_status [OF i r n a s] f
    by (simp add: demo_pbm_def)
qed


section \<open>Properties of the backup actions\<close>

lemma get_pbm_status_issued:
  "get_pbm_status b p s = (st, s') \<Longrightarrow>
   calls s' = calls s @ poll_calls p \<and> st = fst (get_pbm_status b p s0)"
  using get_pbm_status_calls [of b p s] get_pbm_status_fst [of b p s s0]
  by (simp add: poll_calls_def)

lemma outcome_of_poll_calls [simp]: "outcome_of (poll_calls p @ cs) = outcome_of cs"
  by (simp add: poll_calls_def)





lemma poll_calls_checked [simp]: "GetBackupService \<in> set (poll_calls p)"
  by (simp add: poll_calls_def)

lemma outcome_of_poll_calls_only [simp]: "outcome_of (poll_calls p) = Proceeded"
  by (simp add: poll_calls_def)


section \<open>Claims about the backup actions\<close>





lemma demo_polling_status:
  "fst (get_pbm_status (demo_pbm_polling st) demo_poll fresh) = st"
  by (simp add: get_pbm_status_def demo_pbm_polling_def demo_pbm_def demo_poll_def Let_def)




section \<open>Properties of the pre-check loop\<close>

declare retrying.simps [simp del]

lemma precheck_attempt_busy:
  assumes "is_maintenance (polled b r n) \<or> is_waiting (polled b r n)"
  shows "\<exists>s'. precheck_attempt b (polls r n) s = (Inl PBMBusyError, s')
           \<and> calls s' = calls s @ poll_calls (polls r n)
                @ (if is_waiting (polled b r n) then [RestartBackupService] else [])"
proof -
  obtain st s1 where g: "get_pbm_status b (polls r n) s = (st, s1)"
    by (cases "get_pbm_status b (polls r n) s")
  note gi = get_pbm_status_issued [OF g, of fresh]
  have st: "st = polled b r n" using gi by (simp add: polled_def)
  show ?thesis
    using assms gi [THEN conjunct1] unfolding st [symmetric]
    by (cases st) (simp_all add: precheck_attempt_def g)
qed

lemma retrying_busy:
  assumes "a + k = 21" "0 < k"
    and "\<forall>n. a \<le> n \<and> n \<le> 20 \<longrightarrow> is_maintenance (polled b r n) \<or> is_waiting (polled b r n)"
  shows "\<exists>s'. retrying 20 5 (\<lambda>err. True) (\<lambda>n. precheck_attempt b (polls r n)) a s = (Inl PBMBusyError, s')
           \<and> calls s' = calls s @ busy_calls b r a k"
  using assms
proof (induction k arbitrary: a s)
  case 0
  then show ?case by simp
next
  case (Suc k)
  have busy: "is_maintenance (polled b r a) \<or> is_waiting (polled b r a)"
    using Suc.prems by auto
  obtain s1 where s1: "precheck_attempt b (polls r a) s = (Inl PBMBusyError, s1)"
    "calls s1 = calls s @ poll_calls (polls r a)
                @ (if is_waiting (polled b r a) then [RestartBackupService] else [])"
    using precheck_attempt_busy [OF busy, of s] by blast
  show ?case
  proof (cases "k = 0")
    case True
    then have "20 \<le> a" using Suc.prems by simp
    then show ?thesis using s1 True
      by (subst retrying.simps) simp
  next
    case False
    then have lt: "\<not> 20 \<le> a" and k: "Suc a + k = 21" "0 < k" using Suc.prems by auto
    have "\<forall>n. Suc a \<le> n \<and> n \<le> 20 \<longrightarrow> is_maintenance (polled b r n) \<or> is_waiting (polled b r n)"
      using Suc.prems by auto
    from Suc.IH [OF k this, of "log (Sleep 5) s1"]
    obtain s' where s': "retrying 20 5 (\<lambda>err. True) (\<lambda>n. precheck_attempt b (polls r n)) (Suc a) (log (Sleep 5) s1)
         = (Inl PBMBusyError, s')" "calls s' = calls (log (Sleep 5) s1) @ busy_calls b r (Suc a) k"
      by blast
    show ?thesis
      using s1 s' lt False by (subst retrying.simps) simp
  qed
qed

lemma count_poll_calls [simp]:
  "count_list (poll_calls p) GetBackupService = 1"
  "count_list (poll_calls p) RestartBackupService = 0"
  "RunPbmCommand [''config'', ''--force-resync''] \<notin> set (poll_calls p)"
  by (simp_all add: poll_calls_def PBM_STATUS_CMD_def)

lemma busy_calls_polls: "count_list (busy_calls b r a k) GetBackupService = k"
  by (induction k arbitrary: a) auto

lemma busy_calls_restarts:
  "count_list (busy_calls b r a k) RestartBackupService
     = length (filter (\<lambda>n. is_waiting (polled b r n)) [a..<a + k])"
proof (induction k arbitrary: a)
  case 0
  then show ?case by simp
next
  case (Suc k)
  have "[a..<a + Suc k] = a # [Suc a..<Suc a + k]"
    by (simp add: upt_conv_Cons)
  then show ?case using Suc.IH [of "Suc a"] by auto
qed

lemma busy_calls_no_resync:
  "RunPbmCommand [''config'', ''--force-resync''] \<notin> set (busy_calls b r a k)"
  by (induction k arbitrary: a) auto


lemma resync_busy:
  assumes "\<forall>n. 1 \<le> n \<and> n \<le> 20 \<longrightarrow> is_maintenance (polled b r n) \<or> is_waiting (polled b r n)"
  shows "fst (resync_config_options b r s) = Inl PBMBusyError
     \<and> issued s (snd (resync_config_options b r s)) = StartBackupService # busy_calls b r 1 20"
proof -
  obtain s' where s': "retrying 20 5 (\<lambda>err. True) (\<lambda>n. precheck_attempt b (polls r n)) 1 (log StartBackupService s)
       = (Inl PBMBusyError, s')" "calls s' = calls (log StartBackupService s) @ busy_calls b r 1 20"
    using retrying_busy [of 1 20 b r "log StartBackupService s"] assms by auto
  have "calls s' = calls s @ StartBackupService # busy_calls b r 1 20"
    using s'(2) by simp
  from issued_append [OF this] show ?thesis
    using s'(1) by (simp add: resync_config_options_def Let_def)
qed

lemma precheck_attempt_cases:
  "(is_maintenance (fst (get_pbm_status b p s)) \<longrightarrow>
      precheck_attempt b p s = (Inl PBMBusyError, snd (get_pbm_status b p s)))
   \<and> (is_waiting (fst (get_pbm_status b p s)) \<longrightarrow>
      precheck_attempt b p s = (Inl PBMBusyError, log RestartBackupService (snd (get_pbm_status b p s))))"
  by (cases "get_pbm_status b p s"; cases "fst (get_pbm_status b p s)")
    (auto simp: precheck_attempt_def)

lemma demo_polled: "polled (demo_pbm_polling st) demo_resync n = st"
  by (simp add: polled_def demo_resync_def demo_polling_status)


section \<open>Claims about the pre-check loop\<close>

text \<open>
  Claim C2, as amended. In the pre-check loop of \<^verbatim>\<open>_resync_config_options\<close> a
  maintenance status raises \<^verbatim>\<open>PBMBusyError\<close> without restarting the backup service,
  and a waiting status restarts the service and then raises \<^verbatim>\<open>PBMBusyError\<close>;
  either way the attempt is retried. When the status is maintenance or waiting on all
  twenty attempts, the function polls the status exactly twenty times, restarts the
  service exactly on the attempts whose status was waiting, raises
  \<^verbatim>\<open>PBMBusyError\<close> and never issues the resync command.
\<close>

theorem busy_precheck_raises_after_twenty_attempts:
  assumes "\<forall>n. 1 \<le> n \<and> n \<le> 20 \<longrightarrow> is_maintenance (polled b r n) \<or> is_waiting (polled b r n)"
  shows "fst (resync_config_options b r s) = Inl PBMBusyError
     \<and> count_list (issued s (snd (resync_config_options b r s))) GetBackupService = 20
     \<and> count_list (issued s (snd (resync_config_options b r s))) RestartBackupService
         = length (filter (\<lambda>n. is_waiting (polled b r n)) [1..<21])
     \<and> RunPbmCommand [''config'', ''--force-resync''] \<notin> set (issued s (snd (resync_config_options b r s)))
     \<and> (\<forall>p s1. is_maintenance (fst (get_pbm_status b p s1)) \<longrightarrow>
            precheck_attempt b p s1 = (Inl PBMBusyError, snd (get_pbm_status b p s1)))
     \<and> (\<forall>p s1. is_waiting (fst (get_pbm_status b p s1)) \<longrightarrow>
            precheck_attempt b p s1 =
              (Inl PBMBusyError, log RestartBackupService (snd (get_pbm_status b p s1))))"
proof -
  have "count_list (busy_calls b r 1 20) RestartBackupService
      = length (filter (\<lambda>n. is_waiting (polled b r n)) [1..<21])"
    using busy_calls_restarts [of b r 1 20] by simp
  then show ?thesis
    using resync_busy [OF assms, of s] precheck_attempt_cases [of b]
    by (simp add: busy_calls_polls busy_calls_no_resync)
qed


text \<open>The claim C2 as stated fails: when every poll reports maintenance, the twenty
  attempts issue no restart at all.\<close>

theorem maintenance_never_restarts_counterexample:
  "polled (demo_pbm_polling (MaintenanceStatus ''backup running'')) demo_resync 1
     = MaintenanceStatus ''backup running''
   \<and> fst (resync_config_options (demo_pbm_polling (MaintenanceStatus ''backup running'')) demo_resync fresh)
     = Inl PBMBusyError
   \<and> count_list (issued fresh (snd (resync_config_options
        (demo_pbm_polling (MaintenanceStatus ''backup running'')) demo_resync fresh))) GetBackupService = 20
   \<and> count_list (issued fresh (snd (resync_config_options
        (demo_pbm_polling (MaintenanceStatus ''backup running'')) demo_resync fresh))) RestartBackupService = 0"
proof -
  have "\<forall>n. 1 \<le> n \<and> n \<le> 20 \<longrightarrow>
      is_maintenance (polled (demo_pbm_polling (MaintenanceStatus ''backup running'')) demo_resync n)
      \<or> is_waiting (polled (demo_pbm_polling (MaintenanceStatus ''backup running'')) demo_resync n)"
    by (simp add: demo_polled)
  from resync_busy [OF this, of fresh] show ?thesis
    using busy_calls_restarts [of "demo_pbm_polling (MaintenanceStatus ''backup running'')" demo_resync 1 20]
    by (simp add: busy_calls_polls demo_polled)
qed


theorem busy_precheck_raises_after_twenty_attempts_witness:
  "fst (resync_config_options (demo_pbm_polling (WaitingStatus ''resync running'')) demo_resync fresh)
     = Inl PBMBusyError
   \<and> count_list (issued fresh (snd (resync_config_options
        (demo_pbm_polling (WaitingStatus ''resync running'')) demo_resync fresh))) GetBackupService = 20
   \<and> count_list (issued fresh (snd (resync_config_options
        (demo_pbm_polling (WaitingStatus ''resync running'')) demo_resync fresh))) RestartBackupService = 20
   \<and> RunPbmCommand [''config'', ''--force-resync''] \<notin> set (issued fresh (snd (resync_config_options
        (demo_pbm_polling (WaitingStatus ''resync running'')) demo_resync fresh)))"
proof -
  have "\<forall>n. 1 \<le> n \<and> n \<le> 20 \<longrightarrow>
      is_maintenance (polled (demo_pbm_polling (WaitingStatus ''resync running'')) demo_resync n)
      \<or> is_waiting (polled (demo_pbm_polling (WaitingStatus ''resync running'')) demo_resync n)"
    by (simp add: demo_polled)
  from busy_precheck_raises_after_twenty_attempts [OF this, of fresh] show ?thesis
    by (simp add: demo_polled)
qed


section \<open>Claims about the remapping pattern\<close>

text \<open>
  Claim C9, as amended. The diagnostic text of the documented form matches the remapping
  pattern. The first capture group is the run of characters other than commas and
  whitespace after \<^verbatim>\<open>are: \<close>: for the text that ends in \<^verbatim>\<open>rs1.\<close> it is
  \<^verbatim>\<open>rs1.\<close>, the final period included; it is \<^verbatim>\<open>rs1\<close> when the text ends in
  \<^verbatim>\<open>rs1\<close> or goes on with
  \<^verbatim>\<open>. Backup has no data for the config server or sole replicaset\<close>.
\<close>

theorem remapped_name_of_topology_error:
  "remapped_name (topology_error @ ''.'') = Some ''rs1.''
   \<and> remapped_name topology_error = Some ''rs1''
   \<and> remapped_name
        (topology_error @ ''. Backup has no data for the config server or sole replicaset'')
       = Some ''rs1''"
  by code_simp

text \<open>The claim C9 as stated fails: on the text that ends in \<^verbatim>\<open>rs1.\<close> the greedy class
  takes the period too, and the group is not \<^verbatim>\<open>rs1\<close>.\<close>

theorem remapped_name_keeps_period_counterexample:
  "remapped_name (topology_error @ ''.'') \<noteq> Some ''rs1''"
  by code_simp

section \<open>Properties of secret removal\<close>

lemma falsy_cases: "\<not> truthy val \<Longrightarrow> val = None \<or> val = Some []"
  by (cases val) auto

lemma set_secret_falsy:
  "\<not> truthy val \<Longrightarrow> set_secret sc key val st = removal_result (remove_secret sc key st)"
  by (auto dest!: falsy_cases simp: set_secret_def)

lemma juju_secrets_get_frame:
  "juju_secrets (snd (juju_secrets_get sc st)) = juju_secrets st
   \<and> peer_data (snd (juju_secrets_get sc st)) = peer_data st
   \<and> has_secrets (snd (juju_secrets_get sc st)) = has_secrets st
   \<and> peer_relation (snd (juju_secrets_get sc st)) = peer_relation st
   \<and> unit_is_leader (snd (juju_secrets_get sc st)) = unit_is_leader st"
  by (simp add: juju_secrets_get_def split: option.splits prod.splits)

lemma juju_secrets_get_ok:
  "peer_relation st \<Longrightarrow> \<exists>r. fst (juju_secrets_get sc st) = Inr r"
  by (auto simp: juju_secrets_get_def split: option.splits prod.splits)

lemma juju_secrets_get_when_cached:
  "peer_relation st \<Longrightarrow> cached st sc = Some (secret, c) \<Longrightarrow>
   juju_secrets_get sc st =
     (Inr (truthy (map_of (peer_data st sc) SECRET_INTERNAL_LABEL) \<and> c \<noteq> []), st)"
  by (simp add: juju_secrets_get_def)

lemma juju_secrets_get_uncached:
  "peer_relation st \<Longrightarrow> cached (snd (juju_secrets_get sc st)) sc = None \<Longrightarrow>
   juju_secrets_get sc st = (Inr False, st)"
  by (simp add: juju_secrets_get_def split: option.splits prod.splits if_splits)

lemma juju_secret_get_key_uncached:
  "juju_secrets_get sc st = (Inr False, st) \<Longrightarrow> fst (juju_secret_get_key sc key st) = Inr None"
  by (simp add: juju_secret_get_key_def)

lemma juju_secret_get_key_cached:
  "peer_relation st \<Longrightarrow> cached st sc = Some (secret, c) \<Longrightarrow>
   map_of c key = None \<or> map_of c key = Some SECRET_DELETED_LABEL \<Longrightarrow>
   fst (juju_secret_get_key sc key st) = Inr None"
  by (auto simp: juju_secret_get_key_def juju_secrets_get_when_cached split: bool.splits)

lemma may_write_frame [simp]:
  "may_write (st\<lparr>cached := x\<rparr>) sc = may_write st sc"
  "may_write (st\<lparr>juju_secrets := y\<rparr>) sc = may_write st sc"
  "may_write (st\<lparr>peer_data := z\<rparr>) sc = may_write st sc"
  by (simp_all add: may_write_def)

lemma may_write_juju_secrets_get [simp]:
  "may_write (snd (juju_secrets_get sc' st)) sc = may_write st sc"
  by (simp add: may_write_def juju_secrets_get_frame)

lemma juju_secret_remove_cases:
  assumes "peer_relation st" "may_write st sc"
  shows "(cached (snd (juju_secrets_get sc st)) sc = None
      \<and> juju_secret_remove sc key st = (Inr (), snd (juju_secrets_get sc st)))
   \<or> (\<exists>secret c. cached (snd (juju_secrets_get sc st)) sc = Some (secret, c) \<and> map_of c key = None
      \<and> juju_secret_remove sc key st = (Inr (), snd (juju_secrets_get sc st)))
   \<or> (\<exists>secret c. cached (snd (juju_secrets_get sc st)) sc = Some (secret, c) \<and> map_of c key \<noteq> None
      \<and> juju_secret_remove sc key st =
          (Inr (), (snd (juju_secrets_get sc st))
            \<lparr>cached := (cached (snd (juju_secrets_get sc st)))
                 (sc := Some (secret, AList.update key SECRET_DELETED_LABEL c)),
             juju_secrets := (juju_secrets (snd (juju_secrets_get sc st)))
                 (secret \<mapsto> AList.update key SECRET_DELETED_LABEL c)\<rparr>))"
proof -
  obtain r st1 where g: "juju_secrets_get sc st = (Inr r, st1)"
    using juju_secrets_get_ok [OF assms(1), of sc] by (cases "juju_secrets_get sc st") auto
  have mw: "may_write st1 sc"
    using may_write_juju_secrets_get [of sc st sc] g assms(2) by simp
  show ?thesis
  proof (cases "cached st1 sc")
    case None
    then show ?thesis using g by (simp add: juju_secret_remove_def)
  next
    case (Some a)
    obtain secret c where a: "a = (secret, c)" by (cases a)
    show ?thesis
    proof (cases "map_of c key")
      case None
      then show ?thesis using g Some a by (simp add: juju_secret_remove_def)
    next
      case (Some v)
      then have "c \<noteq> []" by auto
      then show ?thesis using g \<open>cached st1 sc = Some a\<close> a Some mw
        by (simp add: juju_secret_remove_def Let_def)
    qed
  qed
qed

lemma peer_relation_juju_secret_remove:
  assumes "peer_relation st" "may_write st sc"
  shows "peer_relation (snd (juju_secret_remove sc key st))
     \<and> has_secrets (snd (juju_secret_remove sc key st)) = has_secrets st"
  using juju_secret_remove_cases [OF assms, of key] juju_secrets_get_frame [of sc st] assms(1)
  by (elim disjE exE conjE) simp_all

lemma get_after_juju_remove:
  assumes "peer_relation st" "may_write st sc"
  shows "fst (juju_secret_get_key sc key (snd (juju_secret_remove sc key st))) = Inr None"
proof -
  let ?st1 = "snd (juju_secrets_get sc st)"
  have pr1: "peer_relation ?st1" using assms(1) by (simp add: juju_secrets_get_frame)
  from juju_secret_remove_cases [OF assms, of key] show ?thesis
  proof (elim disjE exE conjE)
    assume n: "cached ?st1 sc = None" and e: "juju_secret_remove sc key st = (Inr (), ?st1)"
    have "juju_secrets_get sc st = (Inr False, st)"
      using assms(1) n by (rule juju_secrets_get_uncached)
    then show ?thesis using e by (simp add: juju_secret_get_key_uncached)
  next
    fix secret c
    assume "cached ?st1 sc = Some (secret, c)" "map_of c key = None"
      "juju_secret_remove sc key st = (Inr (), ?st1)"
    then show ?thesis using pr1 by (simp add: juju_secret_get_key_cached)
  next
    fix secret c
    assume c: "cached ?st1 sc = Some (secret, c)" "map_of c key \<noteq> None"
      and e: "juju_secret_remove sc key st =
          (Inr (), ?st1\<lparr>cached := (cached ?st1)(sc := Some (secret, AList.update key SECRET_DELETED_LABEL c)),
               juju_secrets := (juju_secrets ?st1)(secret \<mapsto> AList.update key SECRET_DELETED_LABEL c)\<rparr>)"
    let ?st2 = "snd (juju_secret_remove sc key st)"
    have "cached ?st2 sc = Some (secret, AList.update key SECRET_DELETED_LABEL c)"
      by (simp add: e)
    moreover have "map_of (AList.update key SECRET_DELETED_LABEL c) key = Some SECRET_DELETED_LABEL"
      by (simp add: update_conv')
    moreover have "peer_relation ?st2" using pr1 by (simp add: e)
    ultimately show ?thesis by (simp add: juju_secret_get_key_cached)
  qed
qed

lemma remove_secret_ok:
  assumes "peer_relation st" "may_write st sc"
  shows "fst (remove_secret sc key st) = Inr ()"
proof (cases "has_secrets st")
  case False
  then show ?thesis using assms by (simp add: remove_secret_def)
next
  case True
  then show ?thesis
    using juju_secret_remove_cases [OF assms, of key]
    by (elim disjE exE conjE) (simp_all add: remove_secret_def)
qed

lemma get_after_remove:
  assumes "peer_relation st" "may_write st sc"
  shows "fst (get_secret sc key (snd (remove_secret sc key st))) = Inr None"
proof (cases "has_secrets st")
  case False
  then show ?thesis using assms
    by (simp add: get_secret_def remove_secret_def delete_conv')
next
  case True
  then show ?thesis
    using peer_relation_juju_secret_remove [OF assms, of key] get_after_juju_remove [OF assms, of key]
    by (simp add: get_secret_def remove_secret_def)
qed

lemma set_secret_falsy_ok:
  assumes "\<not> truthy val" "peer_relation st" "may_write st sc"
  shows "set_secret sc key val st = (Inr None, snd (remove_secret sc key st))"
  using remove_secret_ok [OF assms(2,3), of key]
  by (cases "remove_secret sc key st") (simp add: set_secret_falsy [OF assms(1)] removal_result_def)


section \<open>Claims about secret removal\<close>

text \<open>
  Claim C10, as amended. With the peer relation present and on a unit that may write the
  scope (any unit for the unit scope, the leader for the application scope), for every
  key, \<^verbatim>\<open>set_secret\<close> with \<^verbatim>\<open>None\<close> or the empty string never stores that value:
  it removes the secret and returns \<^verbatim>\<open>None\<close>, and a following \<^verbatim>\<open>get_secret\<close> for
  the key yields no value. Without Juju secrets the key is deleted from the peer data.
  With Juju secrets the deleted label \<^verbatim>\<open>None\<close> is written into the cached and the
  stored content when the scope has a secret that holds the key; when the scope has no
  secret, or its secret does not hold the key, nothing is written.
\<close>

theorem set_secret_falsy_removes:
  assumes "\<not> truthy val" and "peer_relation st" and "may_write st sc"
  shows "fst (set_secret sc key val st) = Inr None
     \<and> fst (get_secret sc key (snd (set_secret sc key val st))) = Inr None
     \<and> (\<not> has_secrets st \<longrightarrow>
           snd (set_secret sc key val st) =
             st\<lparr>peer_data := (peer_data st)(sc := AList.delete key (peer_data st sc))\<rparr>
         \<and> map_of (peer_data (snd (set_secret sc key val st)) sc) key = None)
     \<and> (has_secrets st \<longrightarrow>
           (\<forall>secret c. cached (snd (juju_secrets_get sc st)) sc = Some (secret, c)
                \<and> map_of c key \<noteq> None \<longrightarrow>
              cached (snd (set_secret sc key val st)) sc
                = Some (secret, AList.update key SECRET_DELETED_LABEL c)
            \<and> juju_secrets (snd (set_secret sc key val st)) secret
                = Some (AList.update key SECRET_DELETED_LABEL c)
            \<and> map_of (AList.update key SECRET_DELETED_LABEL c) key = Some ''None'')
         \<and> (cached (snd (juju_secrets_get sc st)) sc = None
              \<or> (\<exists>secret c. cached (snd (juju_secrets_get sc st)) sc = Some (secret, c)
                    \<and> map_of c key = None) \<longrightarrow>
              juju_secrets (snd (set_secret sc key val st)) = juju_secrets st
            \<and> peer_data (snd (set_secret sc key val st)) = peer_data st))"
proof -
  note s = set_secret_falsy_ok [OF assms, of key]
  have 1: "fst (set_secret sc key val st) = Inr None" by (simp add: s)
  have 2: "fst (get_secret sc key (snd (set_secret sc key val st))) = Inr None"
    by (simp add: s get_after_remove [OF assms(2,3)])
  have 3: "\<not> has_secrets st \<longrightarrow>
           snd (set_secret sc key val st) =
             st\<lparr>peer_data := (peer_data st)(sc := AList.delete key (peer_data st sc))\<rparr>
         \<and> map_of (peer_data (snd (set_secret sc key val st)) sc) key = None"
    using assms(2,3) by (simp add: s remove_secret_def delete_conv')
  have 4: "has_secrets st \<longrightarrow>
           (\<forall>secret c. cached (snd (juju_secrets_get sc st)) sc = Some (secret, c)
                \<and> map_of c key \<noteq> None \<longrightarrow>
              cached (snd (set_secret sc key val st)) sc
                = Some (secret, AList.update key SECRET_DELETED_LABEL c)
            \<and> juju_secrets (snd (set_secret sc key val st)) secret
                = Some (AList.update key SECRET_DELETED_LABEL c)
            \<and> map_of (AList.update key SECRET_DELETED_LABEL c) key = Some ''None'')"
    using juju_secret_remove_cases [OF assms(2,3), of key]
    by (auto simp: s remove_secret_def update_conv' SECRET_DELETED_LABEL_def)
  have 5: "has_secrets st \<longrightarrow>
          (cached (snd (juju_secrets_get sc st)) sc = None
              \<or> (\<exists>secret c. cached (snd (juju_secrets_get sc st)) sc = Some (secret, c)
                    \<and> map_of c key = None) \<longrightarrow>
              juju_secrets (snd (set_secret sc key val st)) = juju_secrets st
            \<and> peer_data (snd (set_secret sc key val st)) = peer_data st)"
    using juju_secret_remove_cases [OF assms(2,3), of key] juju_secrets_get_frame [of sc st]
    by (auto simp: s remove_secret_def)
  show ?thesis using 1 2 3 4 5 by blast
qed


text \<open>The claim C10 as stated fails: for a key that the scope's secret does not hold, the
  Juju path writes no deleted label; the secret's content stays as it was.\<close>

theorem no_tombstone_for_absent_key_counterexample:
  "has_secrets demo_secrets \<and> peer_relation demo_secrets \<and> may_write demo_secrets APP_SCOPE
   \<and> fst (set_secret APP_SCOPE ''keyfile'' None demo_secrets) = Inr None
   \<and> juju_secrets (snd (set_secret APP_SCOPE ''keyfile'' None demo_secrets)) ''secret:1''
       = Some [(''operator-password'', ''pw1'')]
   \<and> cached (snd (set_secret APP_SCOPE ''keyfile'' None demo_secrets)) APP_SCOPE
       = Some (''secret:1'', [(''operator-password'', ''pw1'')])"
  by code_simp


text \<open>Without write access or without the peer relation the call raises instead: a unit
  that is not the leader cannot delete from the application's data, where the key then
  stays readable, and without a peer relation there is no data to reach.\<close>

lemma set_secret_without_write_access:
  "\<not> may_write demo_follower_secrets APP_SCOPE
   \<and> set_secret APP_SCOPE ''operator-password'' None demo_follower_secrets
       = (Inl RelationDataAccessError, demo_follower_secrets)
   \<and> fst (get_secret APP_SCOPE ''operator-password'' demo_follower_secrets) = Inr (Some ''pw1'')
   \<and> fst (set_secret APP_SCOPE ''operator-password'' None (demo_peer_secrets\<lparr>peer_relation := False\<rparr>))
       = Inl AttributeError"
  by (simp add: set_secret_def removal_result_def remove_secret_def get_secret_def may_write_def
      demo_follower_secrets_def demo_peer_secrets_def)


theorem set_secret_falsy_removes_witness:
  "fst (set_secret APP_SCOPE ''operator-password'' None demo_secrets) = Inr None
   \<and> fst (get_secret APP_SCOPE ''operator-password''
          (snd (set_secret APP_SCOPE ''operator-password'' None demo_secrets))) = Inr None
   \<and> juju_secrets (snd (set_secret APP_SCOPE ''operator-password'' None demo_secrets)) ''secret:1''
       = Some [(''operator-password'', ''None'')]
   \<and> fst (set_secret APP_SCOPE ''operator-password'' (Some []) demo_peer_secrets) = Inr None
   \<and> peer_data (snd (set_secret APP_SCOPE ''operator-password'' (Some []) demo_peer_secrets)) APP_SCOPE = []
   \<and> fst (get_secret APP_SCOPE ''operator-password''
          (snd (set_secret APP_SCOPE ''operator-password'' (Some []) demo_peer_secrets))) = Inr None"
proof -
  have f1: "\<not> truthy None" by simp
  have f2: "\<not> truthy (Some [])" by simp
  have h: "has_secrets demo_secrets" by (simp add: demo_secrets_def)
  have n: "\<not> has_secrets demo_peer_secrets" by (simp add: demo_peer_secrets_def)
  have p1: "peer_relation demo_secrets" by (simp add: demo_secrets_def)
  have p2: "peer_relation demo_peer_secrets" by (simp add: demo_peer_secrets_def)
  have w1: "may_write demo_secrets APP_SCOPE" by (simp add: demo_secrets_def may_write_def)
  have w2: "may_write demo_peer_secrets APP_SCOPE" by (simp add: demo_peer_secrets_def may_write_def)
  have c: "cached (snd (juju_secrets_get APP_SCOPE demo_secrets)) APP_SCOPE
      = Some (''secret:1'', [(''operator-password'', ''pw1'')])" by code_simp
  have m: "map_of [(''operator-password'', ''pw1'')] ''operator-password'' \<noteq> None" by simp
  have u: "AList.update ''operator-password'' SECRET_DELETED_LABEL [(''operator-password'', ''pw1'')]
      = [(''operator-password'', ''None'')]" by (simp add: SECRET_DELETED_LABEL_def)
  have d: "peer_data demo_peer_secrets APP_SCOPE = [(''operator-password'', ''pw1'')]"
    by (simp add: demo_peer_secrets_def)
  note T1 = set_secret_falsy_removes [OF f1 p1 w1, of "''operator-password''"]
  note T2 = set_secret_falsy_removes [OF f2 p2 w2, of "''operator-password''"]
  have a: "fst (set_secret APP_SCOPE ''operator-password'' None demo_secrets) = Inr None
   \<and> fst (get_secret APP_SCOPE ''operator-password''
          (snd (set_secret APP_SCOPE ''operator-password'' None demo_secrets))) = Inr None
   \<and> juju_secrets (snd (set_secret APP_SCOPE ''operator-password'' None demo_secrets)) ''secret:1''
       = Some [(''operator-password'', ''None'')]"
    using T1 h c m u by simp
  have b1: "fst (set_secret APP_SCOPE ''operator-password'' (Some []) demo_peer_secrets) = Inr None"
    by (rule T2 [THEN conjunct1])
  have b2: "fst (get_secret APP_SCOPE ''operator-password''
          (snd (set_secret APP_SCOPE ''operator-password'' (Some []) demo_peer_secrets))) = Inr None"
    by (rule T2 [THEN conjunct2, THEN conjunct1])
  have "snd (set_secret APP_SCOPE ''operator-password'' (Some []) demo_peer_secrets) =
      demo_peer_secrets\<lparr>peer_data := (peer_data demo_peer_secrets)
        (APP_SCOPE := AList.delete ''operator-password'' (peer_data demo_peer_secrets APP_SCOPE))\<rparr>"
    using T2 [THEN conjunct2, THEN conjunct2, THEN conjunct1] n by simp
  then have b3: "peer_data (snd (set_secret APP_SCOPE ''operator-password'' (Some []) demo_peer_secrets)) APP_SCOPE = []"
    using d by simp
  show ?thesis using a b1 b2 b3 by simp
qed


end
